theory Spec2Isabelle
  imports Main "HOL-Library.AList"
begin

section \<open>Data model: parsed JSON values and Python's dynamic operations on them\<close>

text \<open>
  The script works on whatever \<^verbatim>\<open>json.load\<close> returns: \<^verbatim>\<open>None\<close>, booleans, integers,
  floats, strings, lists and dictionaries. Strings are lists of characters, one character
  per code point; a dictionary is an association list in insertion order.
  A float is kept as sign, mantissa and binary exponent, or one of the special values
  the Python parser accepts; the script only ever asks whether it is zero.
\<close>

datatype pyfloat = Finite bool nat int | Infinity bool | NaN

datatype json =
    JNull
  | JBool bool
  | JInt int
  | JFloat pyfloat
  | JStr string
  | JList "json list"
  | JDict "(string \<times> json) list"

datatype py_error = TypeError | AttributeError | KeyError | OSError

text \<open>Truth value of an object, as tested by \<^verbatim>\<open>if x:\<close>.\<close>

fun truthy :: "json \<Rightarrow> bool" where
  "truthy JNull = False"
| "truthy (JBool b) = b"
| "truthy (JInt i) = (i \<noteq> 0)"
| "truthy (JFloat (Finite s m e)) = (m \<noteq> 0)"
| "truthy (JFloat (Infinity s)) = True"
| "truthy (JFloat NaN) = True"
| "truthy (JStr s) = (s \<noteq> [])"
| "truthy (JList xs) = (xs \<noteq> [])"
| "truthy (JDict kvs) = (kvs \<noteq> [])"

text \<open>
  What the script takes from the Python runtime and the operating system, and does not
  define itself: the text of \<^verbatim>\<open>str(x)\<close> for floats, lists and dictionaries, the case
  mapping of \<^verbatim>\<open>str.capitalize\<close>, the local-time rendering
  \<^verbatim>\<open>datetime.fromtimestamp(t).strftime('%Y-%m-%d %H:%M:%S')\<close> (\<open>None\<close> when it raises),
  the text \<^verbatim>\<open>str(e)\<close> of the exception that ends the \<^verbatim>\<open>try\<close> block of a conversation
  (given its class, the file being written and the conversation being processed, so that
  it can name the file and the offending value), whether a directory can be created,
  whether a path can be opened for writing, whether a chunk can be written, and what
  loading the input file gives.
\<close>

datatype load_outcome = NotFound | DecodeError string | ReadError string | Parsed json

record env =
  repr_of :: "json \<Rightarrow> string"
  capitalize :: "string \<Rightarrow> string"
  strftime_local :: "json \<Rightarrow> string option"
  exc_text :: "py_error \<Rightarrow> string \<Rightarrow> json \<Rightarrow> string"
  can_mkdir :: "string \<Rightarrow> bool"
  can_open :: "string \<Rightarrow> bool"
  can_write :: "string \<Rightarrow> bool"
  load_json :: "string \<Rightarrow> load_outcome"

text \<open>Decimal text of a number, as \<^verbatim>\<open>str(n)\<close> and an f-string field give it.\<close>

definition digit :: "nat \<Rightarrow> char" where
  "digit d = ''0123456789'' ! d"

fun show_nat :: "nat \<Rightarrow> string" where
  "show_nat n = (if n < 10 then [digit n] else show_nat (n div 10) @ [digit (n mod 10)])"

declare show_nat.simps [simp del]

definition show_int :: "int \<Rightarrow> string" where
  "show_int i = (if i < 0 then CHR ''-'' # show_nat (nat (- i)) else show_nat (nat i))"

text \<open>\<^verbatim>\<open>str(x)\<close>, which is also what an f-string field \<^verbatim>\<open>{x}\<close> inserts.\<close>

fun py_str :: "env \<Rightarrow> json \<Rightarrow> string" where
  "py_str E (JStr s) = s"
| "py_str E JNull = ''None''"
| "py_str E (JBool b) = (if b then ''True'' else ''False'')"
| "py_str E (JInt i) = show_int i"
| "py_str E v = repr_of E v"

fun is_prefix :: "string \<Rightarrow> string \<Rightarrow> bool" where
  "is_prefix [] s = True"
| "is_prefix (p # ps) [] = False"
| "is_prefix (p # ps) (c # cs) = (p = c \<and> is_prefix ps cs)"

fun substring_of :: "string \<Rightarrow> string \<Rightarrow> bool" where
  "substring_of p [] = (p = [])"
| "substring_of p (c # cs) = (is_prefix p (c # cs) \<or> substring_of p cs)"

text \<open>
  \<^verbatim>\<open>field in obj\<close> for a string \<open>field\<close>: key membership on a dictionary, element
  membership on a list, substring test on a string, \<^verbatim>\<open>TypeError\<close> on anything else.
\<close>

fun py_in :: "string \<Rightarrow> json \<Rightarrow> py_error + bool" where
  "py_in k (JDict kvs) = Inr (map_of kvs k \<noteq> None)"
| "py_in k (JList xs) = Inr (JStr k \<in> set xs)"
| "py_in k (JStr s) = Inr (substring_of k s)"
| "py_in k v = Inl TypeError"

text \<open>
  \<^verbatim>\<open>obj[field]\<close> for a string \<open>field\<close>: lookup on a dictionary (\<^verbatim>\<open>KeyError\<close> when absent),
  \<^verbatim>\<open>TypeError\<close> on a list or string (indices must be integers) and on anything else.
\<close>

fun py_getitem :: "json \<Rightarrow> string \<Rightarrow> py_error + json" where
  "py_getitem (JDict kvs) k = (case map_of kvs k of None \<Rightarrow> Inl KeyError | Some v \<Rightarrow> Inr v)"
| "py_getitem v k = Inl TypeError"

text \<open>\<^verbatim>\<open>obj.get(key, default)\<close>: only dictionaries have the method.\<close>

fun dict_get :: "json \<Rightarrow> string \<Rightarrow> json \<Rightarrow> py_error + json" where
  "dict_get (JDict kvs) k d = Inr (case map_of kvs k of None \<Rightarrow> d | Some v \<Rightarrow> v)"
| "dict_get v k d = Inl AttributeError"

text \<open>
  \<^verbatim>\<open>x[:50]\<close>: strings and lists are sliced; a dictionary or a scalar raises (a dictionary
  raises \<^verbatim>\<open>KeyError\<close> from Python 3.12 on, \<^verbatim>\<open>TypeError\<close> before).
\<close>

fun slice50 :: "json \<Rightarrow> py_error + json" where
  "slice50 (JStr s) = Inr (JStr (take 50 s))"
| "slice50 (JList xs) = Inr (JList (take 50 xs))"
| "slice50 v = Inl TypeError"

fun is_dict :: "json \<Rightarrow> bool" where
  "is_dict (JDict kvs) = True"
| "is_dict v = False"

text \<open>\<^verbatim>\<open>isinstance(x, (int, float))\<close>; \<^verbatim>\<open>bool\<close> is a subclass of \<^verbatim>\<open>int\<close>.\<close>

fun is_number :: "json \<Rightarrow> bool" where
  "is_number (JInt i) = True"
| "is_number (JFloat f) = True"
| "is_number (JBool b) = True"
| "is_number v = False"

section \<open>Filename Sanitizer\<close>

text \<open>The character class of the regular expression \<^verbatim>\<open>[\\/*?:"<>|]\<close>.\<close>

definition invalid_chars :: "char list" where
  "invalid_chars =
     [CHR 0x5C, CHR ''/'', CHR ''*'', CHR ''?'', CHR '':'', CHR 0x22, CHR ''<'', CHR ''>'', CHR ''|'']"

text \<open>\<^verbatim>\<open>s.strip(chars)\<close>: drop leading and trailing characters that occur in \<open>chars\<close>.\<close>

definition strip :: "char list \<Rightarrow> string \<Rightarrow> string" where
  "strip chars s =
     rev (dropWhile (\<lambda>c. c \<in> set chars) (rev (dropWhile (\<lambda>c. c \<in> set chars) s)))"

definition sanitize_filename :: "string \<Rightarrow> string" where
  "sanitize_filename filename =
     (let sanitized = filter (\<lambda>c. c \<notin> set invalid_chars) filename;
          sanitized = map (\<lambda>c. if c = CHR '' '' then CHR ''_'' else c) sanitized;
          sanitized = strip ''. '' sanitized
      in if sanitized \<noteq> [] then take 100 sanitized else ''Untitled'')"


section \<open>Structure Normalizer\<close>

definition message_fields :: "string list" where
  "message_fields = [''chat_messages'', ''messages'', ''conversation'', ''history'']"

text \<open>
  The loop \<^verbatim>\<open>for field in message_fields: if field in conversation and
  isinstance(conversation[field], list): return conversation[field]\<close>;
  \<open>None\<close> when the loop ends without returning.
\<close>

fun messages_loop :: "string list \<Rightarrow> json \<Rightarrow> py_error + json list option" where
  "messages_loop [] c = Inr None"
| "messages_loop (f # fs) c =
     (case py_in f c of
        Inl e \<Rightarrow> Inl e
      | Inr b \<Rightarrow>
          if b then
            (case py_getitem c f of
               Inl e \<Rightarrow> Inl e
             | Inr v \<Rightarrow> (case v of JList xs \<Rightarrow> Inr (Some xs) | _ \<Rightarrow> messages_loop fs c))
          else messages_loop fs c)"

definition extract_messages :: "json \<Rightarrow> py_error + json list" where
  "extract_messages conversation =
     (case messages_loop message_fields conversation of
        Inl e \<Rightarrow> Inl e
      | Inr (Some xs) \<Rightarrow> Inr xs
      | Inr None \<Rightarrow> (case conversation of JList xs \<Rightarrow> Inr xs | _ \<Rightarrow> Inr []))"

definition title_fields :: "string list" where
  "title_fields = [''name'', ''title'', ''conversation_title'', ''subject'']"

text \<open>
  The loop \<^verbatim>\<open>for field in title_fields: if field in conversation and conversation[field]:
  return conversation[field]\<close>.
\<close>

fun title_loop :: "string list \<Rightarrow> json \<Rightarrow> py_error + json option" where
  "title_loop [] c = Inr None"
| "title_loop (f # fs) c =
     (case py_in f c of
        Inl e \<Rightarrow> Inl e
      | Inr b \<Rightarrow>
          if b then
            (case py_getitem c f of
               Inl e \<Rightarrow> Inl e
             | Inr v \<Rightarrow> if truthy v then Inr (Some v) else title_loop fs c)
          else title_loop fs c)"

text \<open>
  The title is whatever the first truthy title field holds (not necessarily a string);
  otherwise it is derived from \<^verbatim>\<open>messages[0].get('text', messages[0].get('content', ''))[:50]\<close>,
  where the inner \<^verbatim>\<open>get\<close> is evaluated first.
\<close>

definition extract_conversation_title :: "env \<Rightarrow> json \<Rightarrow> py_error + json" where
  "extract_conversation_title E conversation =
     (case title_loop title_fields conversation of
        Inl e \<Rightarrow> Inl e
      | Inr (Some t) \<Rightarrow> Inr t
      | Inr None \<Rightarrow>
          (case extract_messages conversation of
             Inl e \<Rightarrow> Inl e
           | Inr [] \<Rightarrow> Inr (JStr ''Untitled_Conversation'')
           | Inr (m # ms) \<Rightarrow>
               (case dict_get m ''content'' (JStr []) of
                  Inl e \<Rightarrow> Inl e
                | Inr d \<Rightarrow>
                    (case dict_get m ''text'' d of
                       Inl e \<Rightarrow> Inl e
                     | Inr t \<Rightarrow>
                         (case slice50 t of
                            Inl e \<Rightarrow> Inl e
                          | Inr first_message \<Rightarrow>
                              Inr (JStr (if truthy first_message
                                         then ''Conversation_'' @ py_str E first_message
                                         else ''Untitled_Conversation'')))))))"

definition wrapper_keys :: "string list" where
  "wrapper_keys = [''conversations'', ''chats'', ''data'', ''items'']"

text \<open>
  The loop over the wrapper keys of a dictionary root: the first key that is present and
  holds a list gives the conversations; the empty list when none does.
\<close>

fun wrapper_loop :: "string list \<Rightarrow> (string \<times> json) list \<Rightarrow> json list" where
  "wrapper_loop [] kvs = []"
| "wrapper_loop (k # ks) kvs =
     (case map_of kvs k of Some (JList xs) \<Rightarrow> xs | _ \<Rightarrow> wrapper_loop ks kvs)"

text \<open>
  Conversation-list extraction, written inline in the driver: a list root is the list
  of conversations; a dictionary root is unwrapped, and when that leaves nothing it is
  taken as a single conversation; any other root gives no conversations.
\<close>

definition extract_conversation_list :: "json \<Rightarrow> json list" where
  "extract_conversation_list data =
     (case data of
        JList xs \<Rightarrow> xs
      | JDict kvs \<Rightarrow>
          (let conversations = wrapper_loop wrapper_keys kvs
           in if conversations = [] then [data] else conversations)
      | _ \<Rightarrow> [])"

section \<open>Message Formatter\<close>

definition sender_fields :: "string list" where
  "sender_fields = [''sender'', ''role'', ''author'', ''from'']"

definition text_fields :: "string list" where
  "text_fields = [''text'', ''content'', ''message'', ''body'']"

definition timestamp_fields :: "string list" where
  "timestamp_fields = [''timestamp'', ''created_at'', ''time'', ''date'']"

text \<open>
  The pattern \<^verbatim>\<open>for field in fields: if field in message: x = message[field]; break\<close>:
  the value of the first field that is present, \<open>None\<close> when none is.
\<close>

fun first_present :: "string list \<Rightarrow> json \<Rightarrow> py_error + json option" where
  "first_present [] m = Inr None"
| "first_present (f # fs) m =
     (case py_in f m of
        Inl e \<Rightarrow> Inl e
      | Inr b \<Rightarrow>
          if b then (case py_getitem m f of Inl e \<Rightarrow> Inl e | Inr v \<Rightarrow> Inr (Some v))
          else first_present fs m)"

text \<open>
  The parts kept from a list-valued text: the \<^verbatim>\<open>text\<close> value of a dictionary that has
  one, a plain string as it is; every other part is dropped.
\<close>

fun text_parts :: "json list \<Rightarrow> json list" where
  "text_parts [] = []"
| "text_parts (JDict kvs # ps) =
     (case map_of kvs ''text'' of Some v \<Rightarrow> v # text_parts ps | None \<Rightarrow> text_parts ps)"
| "text_parts (JStr s # ps) = JStr s # text_parts ps"
| "text_parts (p # ps) = text_parts ps"

text \<open>\<^verbatim>\<open>'\n'.join(parts)\<close>: raises \<^verbatim>\<open>TypeError\<close> when an item is not a string.\<close>

fun join_newline :: "json list \<Rightarrow> py_error + string" where
  "join_newline [] = Inr []"
| "join_newline [JStr s] = Inr s"
| "join_newline (JStr s # p # ps) =
     (case join_newline (p # ps) of Inl e \<Rightarrow> Inl e | Inr r \<Rightarrow> Inr (s @ CHR 0x0A # r))"
| "join_newline (v # ps) = Inl TypeError"

definition resolve_sender :: "env \<Rightarrow> json \<Rightarrow> py_error + string" where
  "resolve_sender E message =
     (case first_present sender_fields message of
        Inl e \<Rightarrow> Inl e
      | Inr None \<Rightarrow> Inr ''Unknown''
      | Inr (Some v) \<Rightarrow> Inr (capitalize E (py_str E v)))"

definition resolve_text :: "json \<Rightarrow> py_error + json" where
  "resolve_text message =
     (case first_present text_fields message of
        Inl e \<Rightarrow> Inl e
      | Inr None \<Rightarrow> Inr (JStr [])
      | Inr (Some t) \<Rightarrow>
          (case t of
             JDict kvs \<Rightarrow> (case map_of kvs ''text'' of Some v \<Rightarrow> Inr v | None \<Rightarrow> Inr t)
           | JList ps \<Rightarrow>
               (case join_newline (text_parts ps) of Inl e \<Rightarrow> Inl e | Inr s \<Rightarrow> Inr (JStr s))
           | _ \<Rightarrow> Inr t))"

text \<open>
  The annotation appended after the sender: nothing when the timestamp is falsy or its
  rendering raises, the rendered date for a number, the raw value otherwise.
\<close>

definition timestamp_note :: "env \<Rightarrow> json \<Rightarrow> string" where
  "timestamp_note E timestamp =
     (if truthy timestamp then
        (if is_number timestamp then
           (case strftime_local E timestamp of
              Some s \<Rightarrow> '' *('' @ s @ '')*''
            | None \<Rightarrow> [])
         else '' *('' @ py_str E timestamp @ '')*'')
      else [])"

definition format_message :: "env \<Rightarrow> json \<Rightarrow> py_error + string" where
  "format_message E message =
     (case resolve_sender E message of
        Inl e \<Rightarrow> Inl e
      | Inr sender \<Rightarrow>
          (case resolve_text message of
             Inl e \<Rightarrow> Inl e
           | Inr text \<Rightarrow>
               (case first_present timestamp_fields message of
                  Inl e \<Rightarrow> Inl e
                | Inr ts \<Rightarrow>
                    Inr (''**'' @ sender @ '':**''
                         @ timestamp_note E (case ts of None \<Rightarrow> JNull | Some v \<Rightarrow> v)
                         @ [CHR 0x0A] @ py_str E text @ [CHR 0x0A]))))"

section \<open>Conversion Driver\<close>

text \<open>
  The world the driver acts on: the files it can see and create (path and content, in
  order of creation), the directories, and the lines printed so far.
\<close>

record world =
  files :: "(string \<times> string) list"
  dirs :: "string list"
  console :: "string list"

text \<open>\<^verbatim>\<open>os.path.exists(p)\<close>; the empty path never exists.\<close>

definition path_exists :: "world \<Rightarrow> string \<Rightarrow> bool" where
  "path_exists w p = (p \<noteq> [] \<and> (p \<in> set (map fst (files w)) \<or> p \<in> set (dirs w)))"

definition py_print :: "string \<Rightarrow> world \<Rightarrow> world" where
  "py_print line w = w\<lparr>console := console w @ [line]\<rparr>"

text \<open>\<^verbatim>\<open>os.path.join(a, b)\<close> and \<^verbatim>\<open>os.path.splitext(p)\<close>, POSIX flavour.\<close>

definition path_join :: "string \<Rightarrow> string \<Rightarrow> string" where
  "path_join a b =
     (if b \<noteq> [] \<and> hd b = CHR ''/'' then b
      else if a = [] \<or> last a = CHR ''/'' then a @ b
      else a @ ''/'' @ b)"

text \<open>
  The extension starts at the last dot of the last path component, provided some
  character before that dot in the component is not a dot.
\<close>

definition splitext :: "string \<Rightarrow> string \<times> string" where
  "splitext p =
     (let name = rev (takeWhile (\<lambda>c. c \<noteq> CHR ''/'') (rev p));
          dirpart = take (length p - length name) p;
          ext = rev (takeWhile (\<lambda>c. c \<noteq> CHR ''.'') (rev name));
          stem = take (length name - length ext - 1) name
      in if CHR ''.'' \<in> set name \<and> (\<exists>c \<in> set stem. c \<noteq> CHR ''.'')
         then (dirpart @ stem, CHR ''.'' # ext)
         else (p, []))"

text \<open>The candidate name tried at a given counter value.\<close>

definition numbered :: "string \<Rightarrow> nat \<Rightarrow> string" where
  "numbered original counter =
     (case splitext original of (base, ext) \<Rightarrow> base @ ''_'' @ show_nat counter @ ext)"

text \<open>Reading a decimal text back, to tell the candidate names apart.\<close>

definition digit_val :: "char \<Rightarrow> nat" where
  "digit_val c = of_char c - 48"

definition digits_val :: "string \<Rightarrow> nat" where
  "digits_val s = foldl (\<lambda>a c. 10 * a + digit_val c) 0 s"

lemma digit_val_digit: "d < 10 \<Longrightarrow> digit_val (digit d) = d"
proof -
  assume "d < 10"
  then consider "d = 0" | "d = 1" | "d = 2" | "d = 3" | "d = 4"
    | "d = 5" | "d = 6" | "d = 7" | "d = 8" | "d = 9"
    by atomize_elim arith
  then show ?thesis
    by cases (simp_all add: digit_def digit_val_def)
qed

lemma digits_val_show_nat: "digits_val (show_nat n) = n"
proof (induction n rule: show_nat.induct)
  case (1 n)
  show ?case
  proof (cases "n < 10")
    case True
    then have "show_nat n = [digit n]"
      by (simp add: show_nat.simps)
    with True show ?thesis
      by (simp add: digits_val_def digit_val_digit)
  next
    case False
    then have eq: "show_nat n = show_nat (n div 10) @ [digit (n mod 10)]"
      by (subst show_nat.simps) simp
    have "digits_val (show_nat n) = 10 * digits_val (show_nat (n div 10)) + digit_val (digit (n mod 10))"
      unfolding eq digits_val_def by simp
    also have "\<dots> = 10 * (n div 10) + n mod 10"
      using "1.IH" [OF False] by (simp add: digit_val_digit)
    finally show ?thesis by simp
  qed
qed

lemma show_nat_inj: "show_nat m = show_nat n \<Longrightarrow> m = n"
  using digits_val_show_nat by metis

lemma numbered_inj: "inj (numbered original)"
proof (rule injI)
  fix j k
  assume "numbered original j = numbered original k"
  then have "show_nat j = show_nat k"
    by (simp add: numbered_def split: prod.splits)
  then show "j = k" by (rule show_nat_inj)
qed

lemma finite_taken: "finite {k. path_exists w (numbered original k)}"
proof -
  have "{k. path_exists w (numbered original k)}
          \<subseteq> numbered original -` (set (map fst (files w)) \<union> set (dirs w))"
    by (auto simp: path_exists_def)
  moreover have "finite (numbered original -` (set (map fst (files w)) \<union> set (dirs w)))"
    by (rule finite_vimageI [OF _ numbered_inj]) simp
  ultimately show ?thesis by (rule finite_subset)
qed

text \<open>
  The loop \<^verbatim>\<open>while os.path.exists(md_filename): md_filename = f"{base}_{counter}{ext}";
  counter += 1\<close>. It ends because only finitely many paths exist and the candidates are
  pairwise different.
\<close>

function unique_path :: "world \<Rightarrow> string \<Rightarrow> string \<Rightarrow> nat \<Rightarrow> string" where
  "unique_path w original md_filename counter =
     (if path_exists w md_filename
      then unique_path w original (numbered original counter) (counter + 1)
      else md_filename)"
  by pat_completeness auto

termination
proof (relation "measure (\<lambda>(w, original, md_filename, counter).
          card {k. counter \<le> k \<and> path_exists w (numbered original k)}
          + (if path_exists w md_filename then 1 else 0))")
  show "wf (measure (\<lambda>(w, original, md_filename, counter).
          card {k. counter \<le> k \<and> path_exists w (numbered original k)}
          + (if path_exists w md_filename then 1 else 0)))"
    by simp
next
  fix w :: world and original md_filename :: string and counter :: nat
  assume ex: "path_exists w md_filename"
  let ?A = "{k. counter \<le> k \<and> path_exists w (numbered original k)}"
  let ?B = "{k. counter + 1 \<le> k \<and> path_exists w (numbered original k)}"
  have fin: "finite ?B"
    by (rule finite_subset [OF _ finite_taken [of w original]]) blast
  have "card ?B + (if path_exists w (numbered original counter) then 1 else 0) = card ?A"
  proof (cases "path_exists w (numbered original counter)")
    case True
    have "?A = insert counter ?B"
      using True by (auto simp: le_Suc_eq)
    moreover have "counter \<notin> ?B" by simp
    ultimately show ?thesis using fin True by simp
  next
    case False
    have "?A = ?B"
    proof (rule set_eqI)
      fix k
      show "k \<in> ?A \<longleftrightarrow> k \<in> ?B"
        using False by (cases "k = counter") auto
    qed
    with False show ?thesis by simp
  qed
  with ex show "((w, original, numbered original counter, counter + 1),
                 (w, original, md_filename, counter))
        \<in> measure (\<lambda>(w, original, md_filename, counter).
          card {k. counter \<le> k \<and> path_exists w (numbered original k)}
          + (if path_exists w md_filename then 1 else 0))"
    by simp
qed

declare unique_path.simps [simp del]

text \<open>
  The body of the \<^verbatim>\<open>with open(...)\<close> block is a sequence of write attempts. Each is
  either a chunk handed to \<^verbatim>\<open>md_file.write\<close> or an exception raised while the chunk
  was being computed; nothing after the first exception is reached.
\<close>

definition field_line :: "env \<Rightarrow> json \<Rightarrow> string \<Rightarrow> string \<Rightarrow> (py_error + string) list" where
  "field_line E conversation key label =
     (case py_in key conversation of
        Inl e \<Rightarrow> [Inl e]
      | Inr b \<Rightarrow>
          if b then
            (case py_getitem conversation key of
               Inl e \<Rightarrow> [Inl e]
             | Inr v \<Rightarrow> [Inr (label @ py_str E v @ [CHR 0x0A])])
          else [])"

definition metadata_chunks :: "env \<Rightarrow> json \<Rightarrow> (py_error + string) list" where
  "metadata_chunks E conversation =
     (case py_in ''created_at'' conversation of
        Inl e \<Rightarrow> [Inl e]
      | Inr c \<Rightarrow>
          (case (if c then Inr True else py_in ''updated_at'' conversation) of
             Inl e \<Rightarrow> [Inl e]
           | Inr b \<Rightarrow>
               if b then
                 [Inr (''## Metadata'' @ [CHR 0x0A])]
                 @ field_line E conversation ''created_at'' ''- Created: ''
                 @ field_line E conversation ''updated_at'' ''- Updated: ''
                 @ [Inr ([CHR 0x0A] @ ''---'' @ [CHR 0x0A, CHR 0x0A])]
               else []))"

definition message_chunk :: "env \<Rightarrow> json \<Rightarrow> (py_error + string) list" where
  "message_chunk E message =
     (if is_dict message then
        (case format_message E message of
           Inl e \<Rightarrow> [Inl e]
         | Inr formatted_message \<Rightarrow> [Inr (formatted_message @ [CHR 0x0A])])
      else [])"

definition message_chunks :: "env \<Rightarrow> json \<Rightarrow> (py_error + string) list" where
  "message_chunks E conversation =
     (case extract_messages conversation of
        Inl e \<Rightarrow> [Inl e]
      | Inr messages \<Rightarrow>
          if messages \<noteq> [] then concat (map (message_chunk E) messages)
          else [Inr (''*No messages found in this conversation.*'' @ [CHR 0x0A])])"

definition transcript_chunks :: "env \<Rightarrow> string \<Rightarrow> json \<Rightarrow> (py_error + string) list" where
  "transcript_chunks E title conversation =
     Inr (''# '' @ title @ [CHR 0x0A, CHR 0x0A])
     # metadata_chunks E conversation @ message_chunks E conversation"

text \<open>
  Carrying the attempts out on an open file: what has been written when the block is
  left, and the exception that ended it, if any. A write the system refuses raises.
\<close>

fun write_all :: "env \<Rightarrow> (py_error + string) list \<Rightarrow> string \<Rightarrow> string \<times> py_error option" where
  "write_all E [] buf = (buf, None)"
| "write_all E (Inl e # cs) buf = (buf, Some e)"
| "write_all E (Inr s # cs) buf =
     (if can_write E s then write_all E cs (buf @ s) else (buf, Some OSError))"

text \<open>
  The \<^verbatim>\<open>try\<close> statement of one conversation: open the file (created empty, or emptied),
  write, report success; any exception is reported with the 1-based index instead.
\<close>

definition error_line :: "env \<Rightarrow> nat \<Rightarrow> py_error \<Rightarrow> string \<Rightarrow> json \<Rightarrow> string" where
  "error_line E i e md_filename conversation =
     ''Error processing conversation '' @ show_nat (i + 1) @ '': ''
     @ exc_text E e md_filename conversation"

definition write_transcript :: "env \<Rightarrow> string \<Rightarrow> string \<Rightarrow> json \<Rightarrow> nat \<Rightarrow> world \<Rightarrow> world" where
  "write_transcript E md_filename title conversation i w =
     (if can_open E md_filename then
        (case write_all E (transcript_chunks E title conversation) [] of
           (buf, None) \<Rightarrow>
             py_print (''Successfully created: '' @ md_filename)
               (w\<lparr>files := AList.update md_filename buf (files w)\<rparr>)
         | (buf, Some e) \<Rightarrow>
             py_print (error_line E i e md_filename conversation)
               (w\<lparr>files := AList.update md_filename buf (files w)\<rparr>))
      else py_print (error_line E i OSError md_filename conversation) w)"

text \<open>
  One iteration of the driver's loop. Title extraction, the override and
  \<open>sanitize_filename\<close> run before the \<^verbatim>\<open>try\<close>: an exception there leaves the loop
  (\<open>Inl\<close>). \<open>sanitize_filename\<close> hands its argument to \<^verbatim>\<open>re.sub\<close>, which raises
  \<^verbatim>\<open>TypeError\<close> on anything but a string.
\<close>

definition resolve_title :: "env \<Rightarrow> nat \<Rightarrow> nat \<Rightarrow> json \<Rightarrow> py_error + json" where
  "resolve_title E n i conversation =
     (case extract_conversation_title E conversation of
        Inl e \<Rightarrow> Inl e
      | Inr title \<Rightarrow>
          if title = JStr ''Untitled_Conversation'' \<and> n > 1
          then Inr (JStr (''Conversation_'' @ show_nat (i + 1)))
          else Inr title)"

definition target_path :: "world \<Rightarrow> string \<Rightarrow> string \<Rightarrow> string" where
  "target_path w output_dir title =
     (let sanitized_title = sanitize_filename title;
          md_filename = path_join output_dir (sanitized_title @ ''.md'')
      in unique_path w md_filename md_filename 1)"

definition process_conversation ::
  "env \<Rightarrow> string \<Rightarrow> nat \<Rightarrow> nat \<Rightarrow> json \<Rightarrow> world \<Rightarrow> py_error + world" where
  "process_conversation E output_dir n i conversation w =
     (case resolve_title E n i conversation of
        Inl e \<Rightarrow> Inl e
      | Inr title \<Rightarrow>
          (case title of
             JStr t \<Rightarrow>
               Inr (write_transcript E (target_path w output_dir t) t conversation i w)
           | _ \<Rightarrow> Inl TypeError))"

datatype run_result = Returned world | Crashed py_error world

fun convert_loop ::
  "env \<Rightarrow> string \<Rightarrow> nat \<Rightarrow> nat \<Rightarrow> json list \<Rightarrow> world \<Rightarrow> run_result" where
  "convert_loop E output_dir n i [] w = Returned w"
| "convert_loop E output_dir n i (c # cs) w =
     (case process_conversation E output_dir n i c w of
        Inl e \<Rightarrow> Crashed e w
      | Inr w' \<Rightarrow> convert_loop E output_dir n (Suc i) cs w')"

definition quoted :: "string \<Rightarrow> string" where
  "quoted s = [CHR 0x27] @ s @ [CHR 0x27]"

text \<open>
  \<^verbatim>\<open>os.makedirs(p)\<close> raises when the path is empty or the system refuses to create
  the directory.
\<close>

definition makedirs :: "env \<Rightarrow> string \<Rightarrow> world \<Rightarrow> py_error + world" where
  "makedirs E p w =
     (if p = [] \<or> \<not> can_mkdir E p then Inl OSError else Inr (w\<lparr>dirs := p # dirs w\<rparr>))"

text \<open>
  \<^verbatim>\<open>if not os.path.exists(output_dir): os.makedirs(output_dir); print(...)\<close>. This
  runs before the \<^verbatim>\<open>try\<close> around the load, so an exception of \<^verbatim>\<open>os.makedirs\<close> ends
  the run. Printing to the console is taken to succeed.
\<close>

definition ensure_dir :: "env \<Rightarrow> string \<Rightarrow> world \<Rightarrow> py_error + world" where
  "ensure_dir E output_dir w =
     (if \<not> path_exists w output_dir then
        (case makedirs E output_dir w of
           Inl e \<Rightarrow> Inl e
         | Inr w' \<Rightarrow> Inr (py_print (''Created directory: '' @ output_dir) w'))
      else Inr w)"

definition convert_conversations_to_md :: "env \<Rightarrow> string \<Rightarrow> string \<Rightarrow> world \<Rightarrow> run_result" where
  "convert_conversations_to_md E json_file_path output_dir w0 =
     (case ensure_dir E output_dir w0 of
        Inl e \<Rightarrow> Crashed e w0
      | Inr w \<Rightarrow>
          (case load_json E json_file_path of
             NotFound \<Rightarrow>
               Returned (py_print (''Error: The file '' @ quoted json_file_path
                                   @ '' was not found.'') w)
           | DecodeError msg \<Rightarrow>
               Returned (py_print (''JSON Error: '' @ msg)
                 (py_print (''Error: The file '' @ quoted json_file_path
                            @ '' is not a valid JSON file.'') w))
           | ReadError msg \<Rightarrow>
               Returned (py_print (''Error reading file: '' @ msg) w)
           | Parsed data \<Rightarrow>
               (let conversations = extract_conversation_list data in
                if conversations = [] then
                  Returned (py_print ''No conversations found in the JSON file.'' w)
                else
                  (case convert_loop E output_dir (length conversations) 0 conversations
                          (py_print (''Found '' @ show_nat (length conversations)
                                     @ '' conversations to convert.'') w) of
                     Crashed e w' \<Rightarrow> Crashed e w'
                   | Returned w' \<Rightarrow>
                       Returned (py_print ([CHR 0x0A] @ ''Conversion complete! Check the ''
                                           @ quoted output_dir
                                           @ '' directory for your markdown files.'') w')))))"

text \<open>
  A sample environment for concrete runs: ASCII capitalisation, a placeholder for the
  library texts, and a system that creates directories, and opens, writes and loads as
  told.
\<close>

definition upper_char :: "char \<Rightarrow> char" where
  "upper_char c =
     (if (97::nat) \<le> of_char c \<and> of_char c \<le> (122::nat)
      then char_of (of_char c - (32::nat)) else c)"

definition lower_char :: "char \<Rightarrow> char" where
  "lower_char c =
     (if (65::nat) \<le> of_char c \<and> of_char c \<le> (90::nat)
      then char_of (of_char c + (32::nat)) else c)"

definition ascii_capitalize :: "string \<Rightarrow> string" where
  "ascii_capitalize s = (case s of [] \<Rightarrow> [] | c # cs \<Rightarrow> upper_char c # map lower_char cs)"

definition sample_env :: "bool \<Rightarrow> load_outcome \<Rightarrow> env" where
  "sample_env writable input =
     \<lparr> repr_of = (\<lambda>v. ''<value>''),
       capitalize = ascii_capitalize,
       strftime_local = (\<lambda>v. Some ''<date>''),
       exc_text = (\<lambda>e p c. ''<exception>''),
       can_mkdir = (\<lambda>p. True),
       can_open = (\<lambda>p. writable),
       can_write = (\<lambda>s. True),
       load_json = (\<lambda>p. input) \<rparr>"

definition empty_world :: world where
  "empty_world = \<lparr> files = [], dirs = [''out''], console = [] \<rparr>"

section \<open>Vocabulary for the statements\<close>

text \<open>The first alias of a mapping that holds a sequence, in the order given.\<close>

fun first_sequence_field :: "string list \<Rightarrow> (string \<times> json) list \<Rightarrow> json list option" where
  "first_sequence_field [] kvs = None"
| "first_sequence_field (f # fs) kvs =
     (case map_of kvs f of Some (JList xs) \<Rightarrow> Some xs | _ \<Rightarrow> first_sequence_field fs kvs)"

text \<open>
  When the title fallback can read a first message: it is a dictionary whose
  \<^verbatim>\<open>text\<close> value (else its \<^verbatim>\<open>content\<close> value, else the empty string) is a string
  or a sequence.
\<close>

fun sliceable :: "json \<Rightarrow> bool" where
  "sliceable (JStr s) = True"
| "sliceable (JList xs) = True"
| "sliceable v = False"

fun first_text_sliceable :: "json \<Rightarrow> bool" where
  "first_text_sliceable (JDict mk) =
     sliceable (case map_of mk ''text'' of
                  Some v \<Rightarrow> v
                | None \<Rightarrow> (case map_of mk ''content'' of Some v \<Rightarrow> v | None \<Rightarrow> JStr []))"
| "first_text_sliceable v = False"

definition first_message_ok :: "json \<Rightarrow> bool" where
  "first_message_ok conversation =
     (case extract_messages conversation of
        Inr (m # ms) \<Rightarrow> first_text_sliceable m
      | _ \<Rightarrow> True)"

fun is_list :: "json \<Rightarrow> bool" where
  "is_list (JList xs) = True"
| "is_list v = False"

text \<open>The world a run ends in, whether it returned or was left by an exception.\<close>

fun world_of :: "run_result \<Rightarrow> world" where
  "world_of (Returned w) = w"
| "world_of (Crashed e w) = w"

section \<open>Properties of the Filename Sanitizer\<close>

lemma set_strip_subset: "set (strip chars s) \<subseteq> set s"
proof -
  have "set (rev (dropWhile P (rev xs))) \<subseteq> set xs" for P and xs :: string
    by (metis set_dropWhileD set_rev subsetI)
  then have "set (strip chars s) \<subseteq> set (dropWhile (\<lambda>c. c \<in> set chars) s)"
    unfolding strip_def by blast
  also have "\<dots> \<subseteq> set s"
    by (meson set_dropWhileD subsetI)
  finally show ?thesis .
qed

lemma valid_map: "c \<notin> set invalid_chars \<Longrightarrow> (if c = CHR '' '' then CHR ''_'' else c) \<notin> set invalid_chars"
  by (simp add: invalid_chars_def)


lemma cleaned_no_invalid:
  "x \<in> set (map (\<lambda>c. if c = CHR '' '' then CHR ''_'' else c)
          (filter (\<lambda>c. c \<notin> set invalid_chars) s)) \<Longrightarrow> x \<notin> set invalid_chars"
proof -
  assume "x \<in> set (map (\<lambda>c. if c = CHR '' '' then CHR ''_'' else c)
          (filter (\<lambda>c. c \<notin> set invalid_chars) s))"
  then obtain c where c: "c \<notin> set invalid_chars" and x: "x = (if c = CHR '' '' then CHR ''_'' else c)"
    by auto
  from valid_map [OF c] x show ?thesis by simp
qed

lemma sanitize_cases:
  "sanitize_filename s =
     (if strip ''. '' (map (\<lambda>c. if c = CHR '' '' then CHR ''_'' else c)
                      (filter (\<lambda>c. c \<notin> set invalid_chars) s)) = []
      then ''Untitled''
      else take 100 (strip ''. '' (map (\<lambda>c. if c = CHR '' '' then CHR ''_'' else c)
                      (filter (\<lambda>c. c \<notin> set invalid_chars) s))))"
  unfolding sanitize_filename_def Let_def by (rule if_cong [OF refl refl refl, THEN trans]) simp


lemma sanitize_no_invalid: "set (sanitize_filename s) \<inter> set invalid_chars = {}"
proof -
  define cl where "cl = map (\<lambda>c. if c = CHR '' '' then CHR ''_'' else c)
               (filter (\<lambda>c. c \<notin> set invalid_chars) s)"
  have cl: "x \<in> set cl \<Longrightarrow> x \<notin> set invalid_chars" for x
    unfolding cl_def by (rule cleaned_no_invalid)
  have sub: "set (take 100 (strip ''. '' cl)) \<subseteq> set cl"
    using set_take_subset [of 100 "strip ''. '' cl"] set_strip_subset [of "''. ''" cl] by blast
  have unt: "set ''Untitled'' \<inter> set invalid_chars = {}"
    by (simp add: invalid_chars_def)
  have eq: "sanitize_filename s = (if strip ''. '' cl = [] then ''Untitled'' else take 100 (strip ''. '' cl))"
    unfolding cl_def by (rule sanitize_cases)
  show ?thesis
  proof (cases "strip ''. '' cl = []")
    case True
    with eq have "sanitize_filename s = ''Untitled''" by presburger
    with unt show ?thesis by presburger
  next
    case False
    with eq have "sanitize_filename s = take 100 (strip ''. '' cl)" by presburger
    then have "set (sanitize_filename s) \<subseteq> set cl" using sub by simp
    with cl show ?thesis by blast
  qed
qed

lemma sanitize_length: "length (sanitize_filename s) \<le> 100"
  unfolding sanitize_cases by simp

lemma sanitize_nonempty: "sanitize_filename s \<noteq> []"
  unfolding sanitize_cases by simp

text \<open>
  Claim C2. For every input string, \<open>sanitize_filename\<close> returns a string that contains
  none of the characters \<^verbatim>\<open>\ / * ? : " < > |\<close>, has length at most 100 and is never empty;
  when the cleaned string is empty the result is the literal \<^verbatim>\<open>Untitled\<close>. The function is
  total: it is defined for every string and has no failing branch.
\<close>

theorem sanitize_filename_safe:
  "set (sanitize_filename s) \<inter> set invalid_chars = {}
   \<and> length (sanitize_filename s) \<le> 100
   \<and> sanitize_filename s \<noteq> []
   \<and> (strip ''. '' (map (\<lambda>c. if c = CHR '' '' then CHR ''_'' else c)
                      (filter (\<lambda>c. c \<notin> set invalid_chars) s)) = []
        \<longrightarrow> sanitize_filename s = ''Untitled'')"
proof -
  have "strip ''. '' (map (\<lambda>c. if c = CHR '' '' then CHR ''_'' else c)
                      (filter (\<lambda>c. c \<notin> set invalid_chars) s)) = []
        \<longrightarrow> sanitize_filename s = ''Untitled''"
    unfolding sanitize_cases by simp
  with sanitize_no_invalid [of s] sanitize_length [of s] sanitize_nonempty [of s]
  show ?thesis by blast
qed

theorem sanitize_filename_safe_witness:
  "strip ''. '' (map (\<lambda>c. if c = CHR '' '' then CHR ''_'' else c)
                  (filter (\<lambda>c. c \<notin> set invalid_chars) ''?./'')) = []
   \<and> sanitize_filename ''?./'' = ''Untitled''"
proof -
  have h: "strip ''. '' (map (\<lambda>c. if c = CHR '' '' then CHR ''_'' else c)
                  (filter (\<lambda>c. c \<notin> set invalid_chars) ''?./'')) = []"
    by (simp add: strip_def invalid_chars_def)
  from sanitize_filename_safe [of "''?./''"] h show ?thesis by blast
qed

section \<open>Properties of the Structure Normalizer\<close>

lemma title_loop_dict:
  "\<exists>r. title_loop fs (JDict kvs) = Inr r"
  by (induction fs) (auto split: option.splits)

lemma first_present_dict:
  "\<exists>r. first_present fs (JDict kvs) = Inr r"
  by (induction fs) (auto split: option.splits)

lemma messages_loop_dict_eq:
  "messages_loop fs (JDict kvs) = Inr (first_sequence_field fs kvs)"
  by (induction fs) (auto split: option.splits json.splits)

lemma extract_messages_dict:
  "extract_messages (JDict kvs) =
     Inr (case first_sequence_field message_fields kvs of Some xs \<Rightarrow> xs | None \<Rightarrow> [])"
  by (simp add: extract_messages_def messages_loop_dict_eq split: option.splits)

lemma messages_loop_list_plain:
  "\<forall>f \<in> set fs. JStr f \<notin> set xs \<Longrightarrow> messages_loop fs (JList xs) = Inr None"
  by (induction fs) auto

lemma extract_messages_list_plain:
  "\<forall>f \<in> set message_fields. JStr f \<notin> set xs \<Longrightarrow> extract_messages (JList xs) = Inr xs"
  by (simp add: extract_messages_def messages_loop_list_plain)

lemma sliceable_slice50: "sliceable v \<Longrightarrow> \<exists>r. slice50 v = Inr r"
  by (cases v) auto

lemma first_text_sliceable_title:
  assumes "first_text_sliceable m"
  shows "\<exists>t. (case dict_get m ''content'' (JStr []) of
                Inl e \<Rightarrow> Inl e
              | Inr d \<Rightarrow>
                  (case dict_get m ''text'' d of
                     Inl e \<Rightarrow> Inl e
                   | Inr t \<Rightarrow>
                       (case slice50 t of
                          Inl e \<Rightarrow> Inl e
                        | Inr first_message \<Rightarrow>
                            Inr (JStr (if truthy first_message
                                       then ''Conversation_'' @ py_str E first_message
                                       else ''Untitled_Conversation''))))) = Inr t"
proof -
  from assms obtain mk where m: "m = JDict mk"
    by (cases m) auto
  define t where "t = (case map_of mk ''text'' of
                  Some v \<Rightarrow> v
                | None \<Rightarrow> (case map_of mk ''content'' of Some v \<Rightarrow> v | None \<Rightarrow> JStr []))"
  from assms m have "sliceable t" by (simp add: t_def)
  then obtain r where r: "slice50 t = Inr r"
    using sliceable_slice50 by blast
  have "dict_get m ''text'' (case map_of mk ''content'' of None \<Rightarrow> JStr [] | Some v \<Rightarrow> v) = Inr t"
    by (simp add: m t_def split: option.splits)
  with r show ?thesis by (simp add: m)
qed

lemma extract_conversation_title_dict:
  assumes "first_message_ok (JDict kvs)"
  shows "\<exists>t. extract_conversation_title E (JDict kvs) = Inr t"
proof -
  obtain r where r: "title_loop title_fields (JDict kvs) = Inr r"
    using title_loop_dict by blast
  obtain ms where ms: "extract_messages (JDict kvs) = Inr ms"
    by (simp add: extract_messages_dict)
  show ?thesis
  proof (cases r)
    case (Some t)
    with r show ?thesis by (simp add: extract_conversation_title_def)
  next
    case None
    show ?thesis
    proof (cases ms)
      case Nil
      with r None ms show ?thesis by (simp add: extract_conversation_title_def)
    next
      case (Cons m ms')
      with assms ms have "first_text_sliceable m"
        by (simp add: first_message_ok_def)
      from first_text_sliceable_title [OF this, of E] r None ms Cons show ?thesis
        by (simp add: extract_conversation_title_def)
    qed
  qed
qed

lemma wrapper_conversations_dict: "extract_conversation_list (JDict kvs) \<noteq> []"
  by (simp add: extract_conversation_list_def Let_def)

lemma wrapper_conversations_scalar:
  "\<not> is_dict v \<Longrightarrow> \<not> is_list v \<Longrightarrow> extract_conversation_list v = []"
  by (cases v) (simp_all add: extract_conversation_list_def)

text \<open>
  Claim C9 (the code departs from it). For a conversation record that is itself a
  sequence, \<open>extract_messages\<close> is meant to return that sequence. The membership test
  \<^verbatim>\<open>field in conversation\<close> runs before the \<^verbatim>\<open>isinstance(conversation, list)\<close> check, so
  on a list that has one of the alias names among its elements the lookup
  \<^verbatim>\<open>conversation[field]\<close> raises \<^verbatim>\<open>TypeError\<close> instead of returning the list. On
  mappings, and on sequences without an alias name as element, the claim holds
  (\<open>extract_messages_dict\<close>, \<open>extract_messages_list_plain\<close>).
\<close>

theorem extract_messages_list_with_alias_raises:
  "extract_messages (JList [JStr ''messages'', JStr ''hello'']) = Inl TypeError"
  by (simp add: extract_messages_def message_fields_def)

text \<open>
  Claim C5 as stated fails: the normalizer operations are not total over every JSON
  value. On a number, \<^verbatim>\<open>field in conversation\<close> raises \<^verbatim>\<open>TypeError\<close>.
\<close>

theorem extract_messages_number_raises:
  "extract_messages (JInt 5) = Inl TypeError"
  by (simp add: extract_messages_def message_fields_def)

text \<open>
  Claim C5, amended. Conversation-list extraction is total over any JSON value (a
  sequence is returned as it is, a mapping never gives the empty list, anything else
  gives the empty list). \<open>extract_messages\<close> returns a value on every mapping.
  \<open>extract_conversation_title\<close> returns a value on every mapping whose message list is
  empty or starts with a mapping whose text is a string or a sequence.
\<close>

theorem normalizer_total_on_mappings:
  "(\<exists>ms. extract_messages (JDict kvs) = Inr ms)
   \<and> (first_message_ok (JDict kvs) \<longrightarrow> (\<exists>t. extract_conversation_title E (JDict kvs) = Inr t))
   \<and> extract_conversation_list (JList xs) = xs
   \<and> extract_conversation_list (JDict kvs) \<noteq> []
   \<and> (\<not> is_dict v \<and> \<not> is_list v \<longrightarrow> extract_conversation_list v = [])"
proof -
  have "\<exists>ms. extract_messages (JDict kvs) = Inr ms"
    by (simp add: extract_messages_dict)
  moreover have "extract_conversation_list (JList xs) = xs"
    by (simp add: extract_conversation_list_def)
  ultimately show ?thesis
    using extract_conversation_title_dict [of kvs E] wrapper_conversations_dict [of kvs]
      wrapper_conversations_scalar [of v]
    by blast
qed

theorem normalizer_total_on_mappings_witness:
  "first_message_ok (JDict [(''messages'', JList [JDict [(''text'', JStr ''Hi'')]])])
   \<and> (\<exists>t. extract_conversation_title (sample_env True NotFound)
            (JDict [(''messages'', JList [JDict [(''text'', JStr ''Hi'')]])]) = Inr t)
   \<and> \<not> is_dict (JInt 5) \<and> \<not> is_list (JInt 5) \<and> extract_conversation_list (JInt 5) = []"
proof -
  have h: "first_message_ok (JDict [(''messages'', JList [JDict [(''text'', JStr ''Hi'')]])])"
    by (simp add: first_message_ok_def extract_messages_def message_fields_def)
  have s: "\<not> is_dict (JInt 5) \<and> \<not> is_list (JInt 5)"
    by simp
  from normalizer_total_on_mappings
         [of "[(''messages'', JList [JDict [(''text'', JStr ''Hi'')]])]"
             "sample_env True NotFound" "[]" "JInt 5"] h s
  show ?thesis by blast
qed

section \<open>Properties of the Message Formatter\<close>

lemma map_of_filter_kept:
  "k \<notin> S \<Longrightarrow> map_of (filter (\<lambda>kv. fst kv \<notin> S) kvs) k = map_of kvs k"
  by (induction kvs) auto

lemma map_of_filter_removed:
  "k \<in> S \<Longrightarrow> map_of (filter (\<lambda>kv. fst kv \<notin> S) kvs) k = None"
  by (induction kvs) auto

lemma first_present_filter_kept:
  "set fs \<inter> S = {} \<Longrightarrow>
   first_present fs (JDict (filter (\<lambda>kv. fst kv \<notin> S) kvs)) = first_present fs (JDict kvs)"
  by (induction fs) (auto simp: map_of_filter_kept)

lemma first_present_filter_removed:
  "set fs \<subseteq> S \<Longrightarrow> first_present fs (JDict (filter (\<lambda>kv. fst kv \<notin> S) kvs)) = Inr None"
  by (induction fs) (auto simp: map_of_filter_removed)

lemma sender_not_timestamp: "set sender_fields \<inter> set timestamp_fields = {}"
  by (simp add: sender_fields_def timestamp_fields_def)

lemma text_not_timestamp: "set text_fields \<inter> set timestamp_fields = {}"
  by (simp add: text_fields_def timestamp_fields_def)

lemma resolve_sender_dict: "\<exists>s. resolve_sender E (JDict kvs) = Inr s"
proof -
  obtain r where "first_present sender_fields (JDict kvs) = Inr r"
    using first_present_dict by blast
  then show ?thesis
    by (cases r) (simp_all add: resolve_sender_def)
qed

lemma format_message_dict:
  assumes "resolve_sender E (JDict kvs) = Inr sender"
    and "resolve_text (JDict kvs) = Inr text"
    and "first_present timestamp_fields (JDict kvs) = Inr ts"
  shows "format_message E (JDict kvs) =
           Inr (''**'' @ sender @ '':**''
                @ timestamp_note E (case ts of None \<Rightarrow> JNull | Some v \<Rightarrow> v)
                @ [CHR 0x0A] @ py_str E text @ [CHR 0x0A])"
  using assms by (simp add: format_message_def)

text \<open>
  Claim C8. For every message mapping whose first matched text-like field holds the
  sequence \<^verbatim>\<open>[{"text": a}, b, {"text": c}]\<close>, the text is resolved to \<open>a\<close>, \<open>b\<close>, \<open>c\<close>
  joined by newlines, and \<open>format_message\<close> renders that block after the sender line.
\<close>

theorem format_message_joins_parts:
  "first_present text_fields (JDict kvs)
     = Inr (Some (JList [JDict [(''text'', JStr a)], JStr b, JDict [(''text'', JStr c)]]))
   \<Longrightarrow>
   resolve_text (JDict kvs) = Inr (JStr (a @ [CHR 0x0A] @ b @ [CHR 0x0A] @ c))
   \<and> (\<exists>sender ts.
         resolve_sender E (JDict kvs) = Inr sender
         \<and> first_present timestamp_fields (JDict kvs) = Inr ts
         \<and> format_message E (JDict kvs) =
             Inr (''**'' @ sender @ '':**''
                  @ timestamp_note E (case ts of None \<Rightarrow> JNull | Some v \<Rightarrow> v)
                  @ [CHR 0x0A] @ a @ [CHR 0x0A] @ b @ [CHR 0x0A] @ c @ [CHR 0x0A]))"
proof -
  assume tf: "first_present text_fields (JDict kvs)
     = Inr (Some (JList [JDict [(''text'', JStr a)], JStr b, JDict [(''text'', JStr c)]]))"
  have rt: "resolve_text (JDict kvs) = Inr (JStr (a @ [CHR 0x0A] @ b @ [CHR 0x0A] @ c))"
    by (simp add: resolve_text_def tf)
  obtain sender where s: "resolve_sender E (JDict kvs) = Inr sender"
    using resolve_sender_dict by blast
  obtain ts where ts: "first_present timestamp_fields (JDict kvs) = Inr ts"
    using first_present_dict by blast
  have "format_message E (JDict kvs) =
             Inr (''**'' @ sender @ '':**''
                  @ timestamp_note E (case ts of None \<Rightarrow> JNull | Some v \<Rightarrow> v)
                  @ [CHR 0x0A] @ a @ [CHR 0x0A] @ b @ [CHR 0x0A] @ c @ [CHR 0x0A])"
    using format_message_dict [OF s rt ts] by simp
  with rt s ts show ?thesis by blast
qed

theorem format_message_joins_parts_witness:
  "first_present text_fields
     (JDict [(''role'', JStr ''user''),
             (''content'', JList [JDict [(''text'', JStr ''A'')], JStr ''B'',
                                  JDict [(''text'', JStr ''C'')]])])
     = Inr (Some (JList [JDict [(''text'', JStr ''A'')], JStr ''B'', JDict [(''text'', JStr ''C'')]]))
   \<and> resolve_text
       (JDict [(''role'', JStr ''user''),
               (''content'', JList [JDict [(''text'', JStr ''A'')], JStr ''B'',
                                    JDict [(''text'', JStr ''C'')]])])
     = Inr (JStr (''A'' @ [CHR 0x0A] @ ''B'' @ [CHR 0x0A] @ ''C''))"
proof -
  have h: "first_present text_fields
     (JDict [(''role'', JStr ''user''),
             (''content'', JList [JDict [(''text'', JStr ''A'')], JStr ''B'',
                                  JDict [(''text'', JStr ''C'')]])])
     = Inr (Some (JList [JDict [(''text'', JStr ''A'')], JStr ''B'', JDict [(''text'', JStr ''C'')]]))"
    by (simp add: text_fields_def)
  from format_message_joins_parts [OF h] h show ?thesis by blast
qed

text \<open>
  Claim C10. When the first timestamp-like field that is present holds a falsy value
  (zero, the empty string, null), \<open>format_message\<close> renders no timestamp annotation:
  the block is the sender line directly followed by the text, and it is the same block
  as for the message with every timestamp-like field removed.
\<close>

theorem format_message_falsy_timestamp:
  "first_present timestamp_fields (JDict kvs) = Inr (Some v) \<Longrightarrow> \<not> truthy v \<Longrightarrow>
   format_message E (JDict kvs)
     = format_message E (JDict (filter (\<lambda>kv. fst kv \<notin> set timestamp_fields) kvs))
   \<and> first_present timestamp_fields
        (JDict (filter (\<lambda>kv. fst kv \<notin> set timestamp_fields) kvs)) = Inr None
   \<and> (\<forall>sender text.
         resolve_sender E (JDict kvs) = Inr sender \<and> resolve_text (JDict kvs) = Inr text
         \<longrightarrow> format_message E (JDict kvs)
               = Inr (''**'' @ sender @ '':**'' @ [CHR 0x0A] @ py_str E text @ [CHR 0x0A]))"
proof -
  assume ts: "first_present timestamp_fields (JDict kvs) = Inr (Some v)" and falsy: "\<not> truthy v"
  let ?kvs' = "filter (\<lambda>kv. fst kv \<notin> set timestamp_fields) kvs"
  have ts': "first_present timestamp_fields (JDict ?kvs') = Inr None"
    by (rule first_present_filter_removed) simp
  have s': "first_present sender_fields (JDict ?kvs') = first_present sender_fields (JDict kvs)"
    by (rule first_present_filter_kept [OF sender_not_timestamp])
  have t': "first_present text_fields (JDict ?kvs') = first_present text_fields (JDict kvs)"
    by (rule first_present_filter_kept [OF text_not_timestamp])
  have nt: "timestamp_note E v = []"
    using falsy by (simp add: timestamp_note_def)
  have nt': "timestamp_note E JNull = []"
    by (simp add: timestamp_note_def)
  have rs: "resolve_sender E (JDict ?kvs') = resolve_sender E (JDict kvs)"
    unfolding resolve_sender_def s' by (rule refl)
  have rx: "resolve_text (JDict ?kvs') = resolve_text (JDict kvs)"
    unfolding resolve_text_def t' by (rule refl)
  have same: "format_message E (JDict kvs) = format_message E (JDict ?kvs')"
    unfolding format_message_def rs rx ts ts'
    by (simp add: nt nt' split: sum.splits)
  have shape: "format_message E (JDict kvs)
               = Inr (''**'' @ sender @ '':**'' @ [CHR 0x0A] @ py_str E body @ [CHR 0x0A])"
    if "resolve_sender E (JDict kvs) = Inr sender" and "resolve_text (JDict kvs) = Inr body"
    for sender body
    using format_message_dict [OF that ts] nt by simp
  from same ts' shape show ?thesis by blast
qed

theorem format_message_falsy_timestamp_witness:
  "first_present timestamp_fields
     (JDict [(''sender'', JStr ''user''), (''text'', JStr ''hi''), (''timestamp'', JInt 0),
             (''date'', JStr ''2024-01-01'')]) = Inr (Some (JInt 0))
   \<and> \<not> truthy (JInt 0)
   \<and> format_message (sample_env True NotFound)
       (JDict [(''sender'', JStr ''user''), (''text'', JStr ''hi''), (''timestamp'', JInt 0),
               (''date'', JStr ''2024-01-01'')])
     = format_message (sample_env True NotFound)
         (JDict (filter (\<lambda>kv. fst kv \<notin> set timestamp_fields)
            [(''sender'', JStr ''user''), (''text'', JStr ''hi''), (''timestamp'', JInt 0),
             (''date'', JStr ''2024-01-01'')]))"
proof -
  have h: "first_present timestamp_fields
     (JDict [(''sender'', JStr ''user''), (''text'', JStr ''hi''), (''timestamp'', JInt 0),
             (''date'', JStr ''2024-01-01'')]) = Inr (Some (JInt 0))"
    by (simp add: timestamp_fields_def)
  have f: "\<not> truthy (JInt 0)" by simp
  from format_message_falsy_timestamp [OF h f, of "sample_env True NotFound"] h f
  show ?thesis by blast
qed

section \<open>Properties of the Conversion Driver\<close>

subsection \<open>The collision loop\<close>

lemma unique_path_free: "\<not> path_exists w md \<Longrightarrow> unique_path w original md counter = md"
  by (subst unique_path.simps) simp

lemma unique_path_taken:
  "path_exists w md \<Longrightarrow>
   unique_path w original md counter
     = unique_path w original (numbered original counter) (counter + 1)"
  by (subst unique_path.simps) simp

lemma unique_path_fresh: "\<not> path_exists w (unique_path w original md counter)"
proof (induction w original md counter rule: unique_path.induct)
  case (1 w original md counter)
  show ?case
  proof (cases "path_exists w md")
    case True
    with "1.IH" show ?thesis by (simp add: unique_path_taken)
  next
    case False
    then show ?thesis by (simp add: unique_path_free)
  qed
qed

text \<open>
  The result is the first unused name in the sequence: the original name, then the
  names numbered from the counter on.
\<close>

lemma unique_path_first_unused:
  "(\<not> path_exists w md \<and> unique_path w original md counter = md)
   \<or> (path_exists w md
       \<and> (\<exists>j \<ge> counter. unique_path w original md counter = numbered original j
              \<and> \<not> path_exists w (numbered original j)
              \<and> (\<forall>l. counter \<le> l \<and> l < j \<longrightarrow> path_exists w (numbered original l))))"
proof (induction w original md counter rule: unique_path.induct)
  case (1 w original md counter)
  show ?case
  proof (cases "path_exists w md")
    case False
    then show ?thesis by (simp add: unique_path_free)
  next
    case True
    note step = unique_path_taken [OF True, of original counter]
    from "1.IH" [OF True] show ?thesis
    proof
      assume a: "\<not> path_exists w (numbered original counter) \<and>
        unique_path w original (numbered original counter) (counter + 1) = numbered original counter"
      have "counter \<le> counter \<and> unique_path w original md counter = numbered original counter
            \<and> \<not> path_exists w (numbered original counter)
            \<and> (\<forall>l. counter \<le> l \<and> l < counter \<longrightarrow> path_exists w (numbered original l))"
        using a step by auto
      with True show ?thesis by blast
    next
      assume "path_exists w (numbered original counter) \<and>
        (\<exists>j \<ge> counter + 1.
            unique_path w original (numbered original counter) (counter + 1) = numbered original j
            \<and> \<not> path_exists w (numbered original j)
            \<and> (\<forall>l. counter + 1 \<le> l \<and> l < j \<longrightarrow> path_exists w (numbered original l)))"
      then obtain j where ex: "path_exists w (numbered original counter)"
        and j: "counter + 1 \<le> j"
        and res: "unique_path w original (numbered original counter) (counter + 1) = numbered original j"
        and fresh: "\<not> path_exists w (numbered original j)"
        and below: "\<forall>l. counter + 1 \<le> l \<and> l < j \<longrightarrow> path_exists w (numbered original l)"
        by blast
      have all: "\<forall>l. counter \<le> l \<and> l < j \<longrightarrow> path_exists w (numbered original l)"
      proof (intro allI impI)
        fix l assume "counter \<le> l \<and> l < j"
        then show "path_exists w (numbered original l)"
          using ex below by (cases "l = counter") auto
      qed
      have "counter \<le> j \<and> unique_path w original md counter = numbered original j
            \<and> \<not> path_exists w (numbered original j)
            \<and> (\<forall>l. counter \<le> l \<and> l < j \<longrightarrow> path_exists w (numbered original l))"
        using j res fresh all step by simp
      with True show ?thesis by blast
    qed
  qed
qed

lemma numbered_nonempty: "numbered original k \<noteq> []"
  by (simp add: numbered_def split: prod.splits)

lemma unique_path_nonempty: "md \<noteq> [] \<Longrightarrow> unique_path w original md counter \<noteq> []"
proof (induction w original md counter rule: unique_path.induct)
  case (1 w original md counter)
  show ?case
  proof (cases "path_exists w md")
    case True
    with "1.IH" numbered_nonempty show ?thesis by (simp add: unique_path_taken)
  next
    case False
    with "1.prems" show ?thesis by (simp add: unique_path_free)
  qed
qed

subsection \<open>Paths\<close>

lemma path_join_nonempty: "b \<noteq> [] \<Longrightarrow> path_join a b \<noteq> []"
  by (simp add: path_join_def)

lemma strip_hd:
  assumes "strip chars s \<noteq> []"
  shows "hd (strip chars s) \<notin> set chars"
proof -
  let ?ys = "dropWhile (\<lambda>c. c \<in> set chars) s"
  have split: "?ys = rev (dropWhile (\<lambda>c. c \<in> set chars) (rev ?ys))
                     @ rev (takeWhile (\<lambda>c. c \<in> set chars) (rev ?ys))"
    by (metis rev_append rev_rev_ident takeWhile_dropWhile_id)
  have st: "strip chars s = rev (dropWhile (\<lambda>c. c \<in> set chars) (rev ?ys))"
    by (simp add: strip_def)
  with assms split have "hd ?ys = hd (strip chars s)"
    by (metis hd_append2)
  moreover from assms st have "?ys \<noteq> []" by force
  then have "hd ?ys \<notin> set chars"
    using hd_dropWhile [of "\<lambda>c. c \<in> set chars" s] by blast
  ultimately show ?thesis by simp
qed

lemma sanitize_hd: "hd (sanitize_filename t) \<noteq> CHR ''.''"
proof -
  define cl where "cl = map (\<lambda>c. if c = CHR '' '' then CHR ''_'' else c)
               (filter (\<lambda>c. c \<notin> set invalid_chars) t)"
  have eq: "sanitize_filename t = (if strip ''. '' cl = [] then ''Untitled'' else take 100 (strip ''. '' cl))"
    unfolding cl_def by (rule sanitize_cases)
  show ?thesis
  proof (cases "strip ''. '' cl = []")
    case True
    with eq show ?thesis by simp
  next
    case False
    then have "hd (strip ''. '' cl) \<notin> set ''. ''" by (rule strip_hd)
    moreover have "hd (take 100 (strip ''. '' cl)) = hd (strip ''. '' cl)"
      using False by (cases "strip ''. '' cl") simp_all
    ultimately show ?thesis using eq False by simp
  qed
qed

lemma sanitize_no_slash: "CHR ''/'' \<notin> set (sanitize_filename t)"
proof -
  have "CHR ''/'' \<in> set invalid_chars" by (simp add: invalid_chars_def)
  with sanitize_no_invalid [of t] show ?thesis by blast
qed

subsection \<open>One conversation\<close>

lemma py_print_fields [simp]:
  "files (py_print l w) = files w"
  "dirs (py_print l w) = dirs w"
  "console (py_print l w) = console w @ [l]"
  by (simp_all add: py_print_def)

lemma ensure_dir_ready:
  "path_exists w d \<or> (d \<noteq> [] \<and> can_mkdir E d) \<Longrightarrow>
   \<exists>w1. ensure_dir E d w = Inr w1 \<and> files w1 = files w"
  by (auto simp: ensure_dir_def makedirs_def)

lemma ensure_dir_refused:
  "\<not> path_exists w d \<Longrightarrow> d = [] \<or> \<not> can_mkdir E d \<Longrightarrow> ensure_dir E d w = Inl OSError"
  by (auto simp: ensure_dir_def makedirs_def)

lemma update_fresh: "k \<notin> set (map fst al) \<Longrightarrow> AList.update k v al = al @ [(k, v)]"
  by (induction al) auto

lemma write_transcript_refused:
  "\<not> can_open E p \<Longrightarrow> write_transcript E p t c i w = py_print (error_line E i OSError p c) w"
  by (simp add: write_transcript_def)

lemma write_transcript_failed:
  "can_open E p \<Longrightarrow> write_all E (transcript_chunks E t c) [] = (buf, Some e) \<Longrightarrow>
   write_transcript E p t c i w
     = py_print (error_line E i e p c) (w\<lparr>files := AList.update p buf (files w)\<rparr>)"
  by (simp add: write_transcript_def)

lemma write_transcript_done:
  "can_open E p \<Longrightarrow> write_all E (transcript_chunks E t c) [] = (buf, None) \<Longrightarrow>
   write_transcript E p t c i w
     = py_print (''Successfully created: '' @ p) (w\<lparr>files := AList.update p buf (files w)\<rparr>)"
  by (simp add: write_transcript_def)

lemma write_transcript_files:
  "files (write_transcript E p t c i w)
     = (if can_open E p
        then AList.update p (fst (write_all E (transcript_chunks E t c) [])) (files w)
        else files w)"
  by (simp add: write_transcript_def split: prod.splits option.splits)

lemma write_transcript_dirs [simp]: "dirs (write_transcript E p t c i w) = dirs w"
  by (simp add: write_transcript_def split: prod.splits option.splits)

lemma process_conversation_string:
  "resolve_title E n i c = Inr (JStr t) \<Longrightarrow>
   process_conversation E d n i c w = Inr (write_transcript E (target_path w d t) t c i w)"
  by (simp add: process_conversation_def)

lemma target_path_fresh: "\<not> path_exists w (target_path w d t)"
  by (simp add: target_path_def Let_def unique_path_fresh)

lemma target_path_nonempty: "target_path w d t \<noteq> []"
  by (simp add: target_path_def Let_def unique_path_nonempty path_join_nonempty)

lemma target_path_new_file: "target_path w d t \<notin> set (map fst (files w))"
  using target_path_fresh [of w d t] target_path_nonempty [of w d t]
  by (simp add: path_exists_def)

text \<open>
  The override always yields a string, so a title that is a string stays one
  whatever the position in the run.
\<close>

lemma resolve_title_string:
  "extract_conversation_title E c = Inr (JStr s) \<Longrightarrow> \<exists>t. resolve_title E n i c = Inr (JStr t)"
  by (simp add: resolve_title_def)

lemma convert_loop_returns:
  "\<forall>c \<in> set cs. \<exists>s. extract_conversation_title E c = Inr (JStr s) \<Longrightarrow>
   \<exists>w'. convert_loop E d n i cs w = Returned w'"
proof (induction cs arbitrary: i w)
  case Nil
  then show ?case by simp
next
  case (Cons c cs)
  then obtain s where "extract_conversation_title E c = Inr (JStr s)" by auto
  then obtain t where "resolve_title E n i c = Inr (JStr t)"
    using resolve_title_string by blast
  then have "process_conversation E d n i c w
               = Inr (write_transcript E (target_path w d t) t c i w)"
    by (rule process_conversation_string)
  moreover have "\<exists>w'. convert_loop E d n (Suc i) cs
                        (write_transcript E (target_path w d t) t c i w) = Returned w'"
    using Cons by simp
  ultimately show ?case by simp
qed

subsection \<open>Load errors\<close>

text \<open>
  Claim C7 as stated fails: the output directory is created before the input is
  read, outside any handler. With an output directory that cannot be created (the
  empty path) and a missing input file, the run ends with the exception of
  \<^verbatim>\<open>os.makedirs\<close> and prints nothing.
\<close>

theorem uncreatable_directory_crashes_before_load:
  "load_json (sample_env True NotFound) ''c.json'' = NotFound
   \<and> convert_conversations_to_md (sample_env True NotFound) ''c.json'' []
         \<lparr> files = [], dirs = [], console = [] \<rparr>
       = Crashed OSError \<lparr> files = [], dirs = [], console = [] \<rparr>"
  by (simp add: convert_conversations_to_md_def ensure_dir_def makedirs_def path_exists_def
        sample_env_def)

text \<open>
  Claim C7, amended. When the output directory exists or can be created, and the input
  file is missing or is not valid JSON, the driver prints an error message naming the
  file, returns normally, leaves the files as they were and does not reach the
  conversion loop: the run is the directory step followed by the report.
\<close>

theorem load_error_stops_run:
  "load_json E path = NotFound \<or> load_json E path = DecodeError msg \<Longrightarrow>
   path_exists w d \<or> (d \<noteq> [] \<and> can_mkdir E d) \<Longrightarrow>
   (\<exists>w1 report.
      ensure_dir E d w = Inr w1
      \<and> convert_conversations_to_md E path d w
        = Returned (w1\<lparr>console := console w1 @ report\<rparr>)
      \<and> (load_json E path = NotFound \<longrightarrow>
            report = [''Error: The file '' @ quoted path @ '' was not found.''])
      \<and> (load_json E path = DecodeError msg \<longrightarrow>
            report = [''Error: The file '' @ quoted path @ '' is not a valid JSON file.'',
                      ''JSON Error: '' @ msg]))
   \<and> files (world_of (convert_conversations_to_md E path d w)) = files w"
proof -
  assume load: "load_json E path = NotFound \<or> load_json E path = DecodeError msg"
    and dir: "path_exists w d \<or> (d \<noteq> [] \<and> can_mkdir E d)"
  from ensure_dir_ready [OF dir] obtain w1
    where w1: "ensure_dir E d w = Inr w1" and f1: "files w1 = files w"
    by blast
  from load have "\<exists>report.
      convert_conversations_to_md E path d w
        = Returned (w1\<lparr>console := console w1 @ report\<rparr>)
      \<and> (load_json E path = NotFound \<longrightarrow>
            report = [''Error: The file '' @ quoted path @ '' was not found.''])
      \<and> (load_json E path = DecodeError msg \<longrightarrow>
            report = [''Error: The file '' @ quoted path @ '' is not a valid JSON file.'',
                      ''JSON Error: '' @ msg])"
  proof
    assume nf: "load_json E path = NotFound"
    have "convert_conversations_to_md E path d w
        = Returned (w1\<lparr>console := console w1
            @ [''Error: The file '' @ quoted path @ '' was not found.'']\<rparr>)"
      by (simp add: convert_conversations_to_md_def w1 nf py_print_def)
    with nf show ?thesis by auto
  next
    assume de: "load_json E path = DecodeError msg"
    have "convert_conversations_to_md E path d w
        = Returned (w1\<lparr>console := console w1
            @ [''Error: The file '' @ quoted path @ '' is not a valid JSON file.'',
               ''JSON Error: '' @ msg]\<rparr>)"
      by (simp add: convert_conversations_to_md_def w1 de py_print_def)
    with de show ?thesis by auto
  qed
  then obtain report where run: "convert_conversations_to_md E path d w
        = Returned (w1\<lparr>console := console w1 @ report\<rparr>)"
    and rep: "load_json E path = NotFound \<longrightarrow>
            report = [''Error: The file '' @ quoted path @ '' was not found.'']"
             "load_json E path = DecodeError msg \<longrightarrow>
            report = [''Error: The file '' @ quoted path @ '' is not a valid JSON file.'',
                      ''JSON Error: '' @ msg]"
    by blast
  have "files (world_of (convert_conversations_to_md E path d w)) = files w"
    unfolding run using f1 by simp
  with w1 run rep show ?thesis by blast
qed

theorem load_error_stops_run_witness:
  "load_json (sample_env True (DecodeError ''Expecting value'')) ''c.json''
     = DecodeError ''Expecting value''
   \<and> ''out'' \<noteq> [] \<and> can_mkdir (sample_env True (DecodeError ''Expecting value'')) ''out''
   \<and> convert_conversations_to_md
        (sample_env True (DecodeError ''Expecting value'')) ''c.json'' ''out''
        \<lparr> files = [], dirs = [], console = [] \<rparr>
     = Returned \<lparr> files = [], dirs = [''out''],
         console = [''Created directory: out'',
                    ''Error: The file '' @ quoted ''c.json'' @ '' is not a valid JSON file.'',
                    ''JSON Error: Expecting value''] \<rparr>"
proof -
  have h: "load_json (sample_env True (DecodeError ''Expecting value'')) ''c.json''
             = DecodeError ''Expecting value''"
    by (simp add: sample_env_def)
  have m: "''out'' \<noteq> [] \<and> can_mkdir (sample_env True (DecodeError ''Expecting value'')) ''out''"
    by (simp add: sample_env_def)
  have e: "ensure_dir (sample_env True (DecodeError ''Expecting value'')) ''out''
             \<lparr> files = [], dirs = [], console = [] \<rparr>
           = Inr \<lparr> files = [], dirs = [''out''], console = [''Created directory: out''] \<rparr>"
    by (simp add: ensure_dir_def makedirs_def path_exists_def sample_env_def py_print_def)
  from load_error_stops_run [OF disjI2, OF h disjI2, OF m,
         where w = "\<lparr> files = [], dirs = [], console = [] \<rparr>"] h
  have "convert_conversations_to_md
        (sample_env True (DecodeError ''Expecting value'')) ''c.json'' ''out''
        \<lparr> files = [], dirs = [], console = [] \<rparr>
     = Returned \<lparr> files = [], dirs = [''out''],
         console = [''Created directory: out'',
                    ''Error: The file '' @ quoted ''c.json'' @ '' is not a valid JSON file.'',
                    ''JSON Error: Expecting value''] \<rparr>"
    unfolding e by auto
  with h m show ?thesis by blast
qed

subsection \<open>Failures inside and outside the try block\<close>

lemma write_all_fails:
  "(\<exists>e. Inl e \<in> set cs) \<or> (\<exists>s. Inr s \<in> set cs \<and> \<not> can_write E s) \<Longrightarrow>
   \<exists>e. snd (write_all E cs buf) = Some e"
proof (induction cs arbitrary: buf)
  case Nil
  then show ?case by simp
next
  case (Cons a cs)
  show ?case
  proof (cases a)
    case (Inl e)
    then show ?thesis by simp
  next
    case (Inr s)
    show ?thesis
    proof (cases "can_write E s")
      case False
      with Inr show ?thesis by simp
    next
      case True
      with Cons.prems Inr
      have "(\<exists>e. Inl e \<in> set cs) \<or> (\<exists>s. Inr s \<in> set cs \<and> \<not> can_write E s)"
        by auto
      from Cons.IH [OF this, of "buf @ s"] True Inr show ?thesis by simp
    qed
  qed
qed

text \<open>
  What the \<^verbatim>\<open>try\<close> statement does isolate. When the file cannot be opened, a chunk is
  refused by the system, or computing a chunk raises, the failure is printed with the
  1-based index of the conversation and the text of the exception, no success is
  reported, and the loop goes on with the next conversation.
\<close>

lemma try_failure_reported:
  assumes title: "resolve_title E n i c = Inr (JStr t)"
    and fail: "\<not> can_open E (target_path w d t)
               \<or> (\<exists>e. Inl e \<in> set (transcript_chunks E t c))
               \<or> (\<exists>s. Inr s \<in> set (transcript_chunks E t c) \<and> \<not> can_write E s)"
  shows "\<exists>w' e.
      process_conversation E d n i c w = Inr w'
      \<and> console w' = console w
           @ [''Error processing conversation '' @ show_nat (i + 1) @ '': ''
              @ exc_text E e (target_path w d t) c]
      \<and> (\<not> can_open E (target_path w d t) \<longrightarrow> files w' = files w)
      \<and> convert_loop E d n i (c # cs) w = convert_loop E d n (Suc i) cs w'"
proof -
  let ?p = "target_path w d t"
  let ?w' = "write_transcript E ?p t c i w"
  have step: "process_conversation E d n i c w = Inr ?w'"
    using title by (rule process_conversation_string)
  then have loop: "convert_loop E d n i (c # cs) w = convert_loop E d n (Suc i) cs ?w'"
    by simp
  have "\<exists>e. console ?w' = console w @ [error_line E i e ?p c]
             \<and> (\<not> can_open E ?p \<longrightarrow> files ?w' = files w)"
  proof (cases "can_open E ?p")
    case False
    then show ?thesis by (auto simp: write_transcript_refused)
  next
    case True
    with fail have "(\<exists>e. Inl e \<in> set (transcript_chunks E t c))
               \<or> (\<exists>s. Inr s \<in> set (transcript_chunks E t c) \<and> \<not> can_write E s)"
      by blast
    from write_all_fails [OF this, of "[]"]
    obtain buf e where "write_all E (transcript_chunks E t c) [] = (buf, Some e)"
      by (cases "write_all E (transcript_chunks E t c) []") auto
    with True show ?thesis by (auto simp: write_transcript_failed)
  qed
  then obtain e where "console ?w' = console w
           @ [''Error processing conversation '' @ show_nat (i + 1) @ '': ''
              @ exc_text E e ?p c]"
    and "\<not> can_open E ?p \<longrightarrow> files ?w' = files w"
    by (auto simp: error_line_def)
  with step loop show ?thesis by blast
qed

text \<open>
  A batch whose first record has a text part that is not a string: joining the parts
  raises inside the \<^verbatim>\<open>try\<close>, the record is reported with index 1 and its file keeps
  the heading written so far, and the second record is converted.
\<close>

lemma failed_write_batch_continues:
  "convert_conversations_to_md
     (sample_env True
        (Parsed (JList
           [JDict [(''name'', JStr ''A''),
                   (''messages'', JList [JDict [(''text'', JList [JDict [(''text'', JInt 5)]])]])],
            JDict [(''name'', JStr ''T'')]])))
     ''c.json'' ''out'' empty_world
   = Returned
       \<lparr> files = [(''out/A.md'', ''# A'' @ [CHR 0x0A, CHR 0x0A]),
                  (''out/T.md'', ''# T'' @ [CHR 0x0A, CHR 0x0A]
                      @ ''*No messages found in this conversation.*'' @ [CHR 0x0A])],
         dirs = [''out''],
         console = [''Found 2 conversations to convert.'',
                    ''Error processing conversation 1: <exception>'',
                    ''Successfully created: out/T.md'',
                    [CHR 0x0A] @ ''Conversion complete! Check the '' @ quoted ''out''
                    @ '' directory for your markdown files.''] \<rparr>"
  by code_simp

text \<open>
  Claim C6 (the code departs from it). One bad record is meant never to abort the
  batch, and the \<^verbatim>\<open>try\<close> statement with its \<^verbatim>\<open>continue\<close> does isolate every failure
  of opening and writing (\<open>try_failure_reported\<close>). But the title is extracted and
  sanitized before the \<^verbatim>\<open>try\<close>: a record whose title is a number makes \<^verbatim>\<open>re.sub\<close>
  raise \<^verbatim>\<open>TypeError\<close> there, the run ends with that exception, nothing is reported
  for the record and the next record is never processed.
\<close>

theorem bad_title_aborts_batch:
  "convert_conversations_to_md
     (sample_env True
        (Parsed (JList [JDict [(''name'', JInt 5)], JDict [(''name'', JStr ''T'')]])))
     ''c.json'' ''out'' empty_world
   = Crashed TypeError
       \<lparr> files = [], dirs = [''out''], console = [''Found 2 conversations to convert.''] \<rparr>"
  by code_simp

subsection \<open>What one conversation adds to the files\<close>

lemma write_all_extends: "\<exists>r. fst (write_all E cs buf) = buf @ r"
proof (induction cs arbitrary: buf)
  case Nil
  then show ?case by simp
next
  case (Cons a cs)
  show ?case
  proof (cases a)
    case (Inl e)
    then show ?thesis by simp
  next
    case (Inr s)
    from Cons [of "buf @ s"] obtain r where "fst (write_all E cs (buf @ s)) = buf @ s @ r"
      by auto
    with Inr show ?thesis by simp
  qed
qed

lemma heading_written:
  assumes "can_write E (''# '' @ t @ [CHR 0x0A, CHR 0x0A])"
  shows "\<exists>r. fst (write_all E (transcript_chunks E t c) [])
               = ''# '' @ t @ [CHR 0x0A, CHR 0x0A] @ r"
proof -
  obtain r where "fst (write_all E (metadata_chunks E c @ message_chunks E c)
                        (''# '' @ t @ [CHR 0x0A, CHR 0x0A]))
                  = (''# '' @ t @ [CHR 0x0A, CHR 0x0A]) @ r"
    using write_all_extends by blast
  with assms show ?thesis
    by (simp add: transcript_chunks_def)
qed

lemma written_file_content:
  "can_open E p \<Longrightarrow>
   map_of (files (write_transcript E p t c i w)) p
     = Some (fst (write_all E (transcript_chunks E t c) []))"
  by (simp add: write_transcript_files update_conv')

lemma heading_in_file:
  assumes "can_open E p" and "can_write E (''# '' @ t @ [CHR 0x0A, CHR 0x0A])"
  shows "\<exists>r. map_of (files (write_transcript E p t c i w)) p
               = Some (''# '' @ t @ [CHR 0x0A, CHR 0x0A] @ r)"
  using heading_written [OF assms(2), of c] written_file_content [OF assms(1), of t c i w]
  by auto

lemma write_transcript_appends:
  "can_open E (target_path w d t) \<Longrightarrow>
   files (write_transcript E (target_path w d t) t c i w)
     = files w @ [(target_path w d t, fst (write_all E (transcript_chunks E t c) []))]"
  by (simp add: write_transcript_files update_fresh [OF target_path_new_file])

lemma write_transcript_names:
  "map fst (files (write_transcript E (target_path w d t) t c i w))
     = map fst (files w) @ (if can_open E (target_path w d t) then [target_path w d t] else [])"
  by (simp add: write_transcript_appends write_transcript_refused)

lemma process_conversation_cases:
  "process_conversation E d n i c w = Inr w1 \<Longrightarrow>
   \<exists>t. w1 = write_transcript E (target_path w d t) t c i w"
  by (auto simp: process_conversation_def split: sum.splits json.splits)



subsection \<open>The override of the generic title\<close>

text \<open>
  Claim C3 as stated fails: in a run of two untitled conversations the heading of the
  first file is the overridden title, not \<^verbatim>\<open>Untitled_Conversation\<close>.
\<close>

theorem heading_shows_overridden_title:
  "map_of (files (world_of (convert_conversations_to_md
      (sample_env True (Parsed (JList [JDict [], JDict []]))) ''c.json'' ''out'' empty_world)))
     ''out/Conversation_1.md''
   = Some (''# Conversation_1'' @ [CHR 0x0A, CHR 0x0A]
           @ ''*No messages found in this conversation.*'' @ [CHR 0x0A])"
  by code_simp

text \<open>
  Claim C3, amended. For every conversation whose resolved title equals
  \<^verbatim>\<open>Untitled_Conversation\<close> in a run with more than one conversation, the title is
  overridden to \<^verbatim>\<open>Conversation_<i+1>\<close>; the file name is derived from the overridden
  title and the level-1 heading written at the top of the file is the overridden
  title too. With exactly one conversation no override is applied: file name and
  heading come from \<^verbatim>\<open>Untitled_Conversation\<close>.
\<close>

theorem untitled_override:
  "extract_conversation_title E c = Inr (JStr ''Untitled_Conversation'') \<Longrightarrow>
   (1 < n \<longrightarrow>
      process_conversation E d n i c w
        = Inr (write_transcript E (target_path w d (''Conversation_'' @ show_nat (i + 1)))
                 (''Conversation_'' @ show_nat (i + 1)) c i w)
      \<and> (can_open E (target_path w d (''Conversation_'' @ show_nat (i + 1)))
           \<and> can_write E (''# Conversation_'' @ show_nat (i + 1) @ [CHR 0x0A, CHR 0x0A])
          \<longrightarrow> (\<exists>r. map_of (files (write_transcript E
                             (target_path w d (''Conversation_'' @ show_nat (i + 1)))
                             (''Conversation_'' @ show_nat (i + 1)) c i w))
                       (target_path w d (''Conversation_'' @ show_nat (i + 1)))
                     = Some (''# Conversation_'' @ show_nat (i + 1) @ [CHR 0x0A, CHR 0x0A] @ r))))
   \<and> (n = 1 \<longrightarrow>
      process_conversation E d n i c w
        = Inr (write_transcript E (target_path w d ''Untitled_Conversation'')
                 ''Untitled_Conversation'' c i w)
      \<and> (can_open E (target_path w d ''Untitled_Conversation'')
           \<and> can_write E (''# Untitled_Conversation'' @ [CHR 0x0A, CHR 0x0A])
          \<longrightarrow> (\<exists>r. map_of (files (write_transcript E
                             (target_path w d ''Untitled_Conversation'')
                             ''Untitled_Conversation'' c i w))
                       (target_path w d ''Untitled_Conversation'')
                     = Some (''# Untitled_Conversation'' @ [CHR 0x0A, CHR 0x0A] @ r))))"
proof -
  assume title: "extract_conversation_title E c = Inr (JStr ''Untitled_Conversation'')"
  have many: "process_conversation E d n i c w
        = Inr (write_transcript E (target_path w d (''Conversation_'' @ show_nat (i + 1)))
                 (''Conversation_'' @ show_nat (i + 1)) c i w)" if "1 < n"
  proof -
    have "resolve_title E n i c = Inr (JStr (''Conversation_'' @ show_nat (i + 1)))"
      using title that by (simp add: resolve_title_def)
    then show ?thesis by (rule process_conversation_string)
  qed
  have one: "process_conversation E d n i c w
        = Inr (write_transcript E (target_path w d ''Untitled_Conversation'')
                 ''Untitled_Conversation'' c i w)" if "n = 1"
  proof -
    have "resolve_title E n i c = Inr (JStr ''Untitled_Conversation'')"
      using title that by (simp add: resolve_title_def)
    then show ?thesis by (rule process_conversation_string)
  qed
  have head: "can_open E (target_path w d t) \<and> can_write E (''# '' @ t @ [CHR 0x0A, CHR 0x0A])
      \<longrightarrow> (\<exists>r. map_of (files (write_transcript E (target_path w d t) t c i w)) (target_path w d t)
                 = Some (''# '' @ t @ [CHR 0x0A, CHR 0x0A] @ r))" for t
    using heading_in_file [of E "target_path w d t" t c i w] by blast
  from many one head [of "''Conversation_'' @ show_nat (i + 1)"] head [of "''Untitled_Conversation''"]
  show ?thesis by simp
qed

theorem untitled_override_witness:
  "extract_conversation_title (sample_env True NotFound) (JDict [])
     = Inr (JStr ''Untitled_Conversation'')
   \<and> (1::nat) < 2
   \<and> process_conversation (sample_env True NotFound) ''out'' 2 0 (JDict []) empty_world
       = Inr (write_transcript (sample_env True NotFound)
                (target_path empty_world ''out'' (''Conversation_'' @ show_nat (0 + 1)))
                (''Conversation_'' @ show_nat (0 + 1)) (JDict []) 0 empty_world)"
proof -
  have h: "extract_conversation_title (sample_env True NotFound) (JDict [])
             = Inr (JStr ''Untitled_Conversation'')"
    by (simp add: extract_conversation_title_def title_fields_def extract_messages_def
          message_fields_def)
  have n: "(1::nat) < 2" by simp
  from untitled_override [OF h, where n = 2 and i = 0 and w = empty_world and d = "''out''"] h n
  show ?thesis by blast
qed

subsection \<open>One transcript per conversation\<close>




subsection \<open>Numbered names\<close>

lemma splitext_md:
  assumes "s \<noteq> []" and "hd s \<noteq> CHR ''.''" and "CHR ''/'' \<notin> set s"
    and "X = [] \<or> last X = CHR ''/''"
  shows "splitext (X @ s @ ''.md'') = (X @ s, ''.md'')"
proof -
  let ?p = "X @ s @ ''.md''"
  have revp: "rev ?p = (''dm.'' @ rev s) @ rev X" by simp
  have tail: "takeWhile (\<lambda>c. c \<noteq> CHR ''/'') (rev X) = []"
    using assms(4) by (cases X rule: rev_cases) auto
  have "takeWhile (\<lambda>c. c \<noteq> CHR ''/'') (rev ?p)
          = (''dm.'' @ rev s) @ takeWhile (\<lambda>c. c \<noteq> CHR ''/'') (rev X)"
    unfolding revp using assms(3) by (intro takeWhile_append2) auto
  then have name: "rev (takeWhile (\<lambda>c. c \<noteq> CHR ''/'') (rev ?p)) = s @ ''.md''"
    using tail by simp
  have ext: "rev (takeWhile (\<lambda>c. c \<noteq> CHR ''.'') (rev (s @ ''.md''))) = ''md''"
    by simp
  have dot: "\<exists>c \<in> set s. c \<noteq> CHR ''.''"
    using assms(1,2) by (cases s) auto
  have stem: "take (length (s @ ''.md'') - length ''md'' - 1) (s @ ''.md'') = s"
    by simp
  have dirpart: "take (length ?p - length (s @ ''.md'')) ?p = X"
    by simp
  show ?thesis
    unfolding splitext_def Let_def name ext stem dirpart
    using dot by simp
qed

lemma path_join_plain:
  assumes "b \<noteq> []" and "hd b \<noteq> CHR ''/''"
  shows "path_join a b = (if a = [] \<or> last a = CHR ''/'' then a else a @ ''/'') @ b"
  using assms by (simp add: path_join_def)

text \<open>
  For a sanitized title the numbered name is the title with \<^verbatim>\<open>_<counter>\<close> put before
  the \<^verbatim>\<open>.md\<close> extension.
\<close>

lemma numbered_md:
  assumes "s \<noteq> []" and "hd s \<noteq> CHR ''.''" and "CHR ''/'' \<notin> set s"
  shows "numbered (path_join d (s @ ''.md'')) k = path_join d (s @ ''_'' @ show_nat k @ ''.md'')"
proof -
  define X where "X = (if d = [] \<or> last d = CHR ''/'' then d else d @ ''/'')"
  have X: "X = [] \<or> last X = CHR ''/''"
    by (simp add: X_def)
  have hd_s: "hd s \<noteq> CHR ''/''"
    using assms(1,3) by (cases s) auto
  have j1: "path_join d (s @ ''.md'') = X @ s @ ''.md''"
    unfolding X_def using assms(1) hd_s by (subst path_join_plain) simp_all
  have j2: "path_join d (s @ ''_'' @ show_nat k @ ''.md'') = X @ s @ ''_'' @ show_nat k @ ''.md''"
    unfolding X_def using assms(1) hd_s by (subst path_join_plain) simp_all
  show ?thesis
    unfolding numbered_def j1 j2 splitext_md [OF assms X] by simp
qed

lemma numbered_sanitized:
  "numbered (path_join d (sanitize_filename t @ ''.md'')) k
     = path_join d (sanitize_filename t @ ''_'' @ show_nat k @ ''.md'')"
  by (rule numbered_md [OF sanitize_nonempty sanitize_hd sanitize_no_slash])

lemma path_join_inj:
  assumes "a \<noteq> []" and "hd a \<noteq> CHR ''/''" and "b \<noteq> []" and "hd b \<noteq> CHR ''/''"
    and "path_join d a = path_join d b"
  shows "a = b"
  using assms by (simp add: path_join_plain)

subsection \<open>Distinct file names\<close>

lemma convert_loop_names:
  "distinct (map fst (files w)) \<Longrightarrow>
   \<exists>new. map fst (files (world_of (convert_loop E d n i cs w))) = map fst (files w) @ new
        \<and> distinct (map fst (files w) @ new)"
proof (induction cs arbitrary: i w)
  case Nil
  then show ?case by simp
next
  case (Cons c cs)
  show ?case
  proof (cases "process_conversation E d n i c w")
    case (Inl e)
    with Cons.prems show ?thesis by simp
  next
    case (Inr w1)
    then obtain t where w1: "w1 = write_transcript E (target_path w d t) t c i w"
      using process_conversation_cases by blast
    define added where "added = (if can_open E (target_path w d t) then [target_path w d t] else [])"
    have names: "map fst (files w1) = map fst (files w) @ added"
      unfolding w1 added_def by (rule write_transcript_names)
    have "distinct (map fst (files w) @ added)"
      using Cons.prems target_path_new_file [of w d t] by (simp add: added_def)
    then have d1: "distinct (map fst (files w1))"
      using names by simp
    from Cons.IH [OF d1, of "Suc i"] obtain new
      where new: "map fst (files (world_of (convert_loop E d n (Suc i) cs w1)))
                    = map fst (files w1) @ new"
        and dn: "distinct (map fst (files w1) @ new)"
      by blast
    have "map fst (files (world_of (convert_loop E d n i (c # cs) w)))
            = map fst (files w) @ (added @ new)"
      using Inr new names by simp
    moreover have "distinct (map fst (files w) @ (added @ new))"
      using dn names by simp
    ultimately show ?thesis by blast
  qed
qed

text \<open>Two conversations with the same title, in a directory where both names are unused.\<close>

lemma same_title_twice:
  assumes t1: "resolve_title E n i c1 = Inr (JStr t)"
    and t2: "resolve_title E n (Suc i) c2 = Inr (JStr t)"
    and free0: "\<not> path_exists w (path_join d (sanitize_filename t @ ''.md''))"
    and free1: "\<not> path_exists w (path_join d (sanitize_filename t @ ''_1.md''))"
    and open0: "can_open E (path_join d (sanitize_filename t @ ''.md''))"
    and open1: "can_open E (path_join d (sanitize_filename t @ ''_1.md''))"
  shows "\<exists>w'. convert_loop E d n i [c1, c2] w = Returned w'
           \<and> map fst (files w') = map fst (files w)
                @ [path_join d (sanitize_filename t @ ''.md''),
                   path_join d (sanitize_filename t @ ''_1.md'')]"
proof -
  let ?s = "sanitize_filename t"
  let ?A = "path_join d (?s @ ''.md'')"
  let ?B = "path_join d (?s @ ''_1.md'')"
  have one: "show_nat 1 = ''1''"
    by (simp add: show_nat.simps digit_def)
  have "?s @ ''_'' @ show_nat 1 @ ''.md'' = ?s @ ''_1.md''"
    unfolding one by simp
  then have B: "numbered ?A 1 = ?B"
    by (simp only: numbered_sanitized)
  have hd_s: "hd ?s \<noteq> CHR ''/''"
    using sanitize_nonempty [of t] sanitize_no_slash [of t] by (cases ?s) auto
  have AB: "?A \<noteq> ?B"
  proof
    assume eq: "?A = ?B"
    have "?s @ ''.md'' = ?s @ ''_1.md''"
    proof (rule path_join_inj [OF _ _ _ _ eq])
      show "?s @ ''.md'' \<noteq> []" and "?s @ ''_1.md'' \<noteq> []"
        by simp_all
      show "hd (?s @ ''.md'') \<noteq> CHR ''/''" and "hd (?s @ ''_1.md'') \<noteq> CHR ''/''"
        using sanitize_nonempty [of t] hd_s by simp_all
    qed
    then show False by simp
  qed
  have p1: "target_path w d t = ?A"
    using free0 by (simp add: target_path_def Let_def unique_path_free)
  let ?w1 = "write_transcript E ?A t c1 i w"
  have step1: "process_conversation E d n i c1 w = Inr ?w1"
    using process_conversation_string [OF t1, of d w] p1 by simp
  have names1: "map fst (files ?w1) = map fst (files w) @ [?A]"
    using write_transcript_names [of E w d t c1 i] p1 open0 by simp
  have "?A \<noteq> []"
    using sanitize_nonempty [of t] by (intro path_join_nonempty) simp
  then have ex1: "path_exists ?w1 ?A"
    by (simp add: path_exists_def names1)
  have nex1: "\<not> path_exists ?w1 ?B"
    using free1 AB by (simp add: path_exists_def names1)
  have p2: "target_path ?w1 d t = ?B"
    using ex1 nex1 B
    by (simp add: target_path_def Let_def unique_path_taken unique_path_free)
  let ?w2 = "write_transcript E ?B t c2 (Suc i) ?w1"
  have step2: "process_conversation E d n (Suc i) c2 ?w1 = Inr ?w2"
    using process_conversation_string [OF t2, of d ?w1] p2 by simp
  have names2: "map fst (files ?w2) = map fst (files ?w1) @ [?B]"
    using write_transcript_names [of E ?w1 d t c2 "Suc i"] p2 open1 by simp
  have "convert_loop E d n i [c1, c2] w = Returned ?w2"
    using step1 step2 by simp
  with names1 names2 show ?thesis by simp
qed

text \<open>
  Claim C4. The names of the files a run creates are pairwise distinct, and distinct
  from the names that were there before. The name chosen for a title is the first
  unused one among \<^verbatim>\<open><title>.md\<close>, \<^verbatim>\<open><title>_1.md\<close>, \<^verbatim>\<open><title>_2.md\<close>, ...: every
  earlier candidate exists. Two conversations with the same title, in a directory
  where the first two names are unused, give \<^verbatim>\<open><title>.md\<close> and then \<^verbatim>\<open><title>_1.md\<close>.
\<close>

theorem output_names_unique:
  "(distinct (map fst (files w)) \<longrightarrow>
      (\<exists>new. map fst (files (world_of (convert_loop E d n i cs w))) = map fst (files w) @ new
            \<and> distinct (map fst (files w) @ new)))
   \<and> \<not> path_exists w (target_path w d t) \<and> target_path w d t \<noteq> []
   \<and> ((\<not> path_exists w (path_join d (sanitize_filename t @ ''.md''))
        \<and> target_path w d t = path_join d (sanitize_filename t @ ''.md''))
       \<or> (path_exists w (path_join d (sanitize_filename t @ ''.md''))
           \<and> (\<exists>j \<ge> 1.
                 target_path w d t
                   = path_join d (sanitize_filename t @ ''_'' @ show_nat j @ ''.md'')
                 \<and> (\<forall>l. 1 \<le> l \<and> l < j \<longrightarrow>
                       path_exists w
                         (path_join d (sanitize_filename t @ ''_'' @ show_nat l @ ''.md''))))))
   \<and> (resolve_title E n i c1 = Inr (JStr t) \<and> resolve_title E n (Suc i) c2 = Inr (JStr t)
       \<and> \<not> path_exists w (path_join d (sanitize_filename t @ ''.md''))
       \<and> \<not> path_exists w (path_join d (sanitize_filename t @ ''_1.md''))
       \<and> can_open E (path_join d (sanitize_filename t @ ''.md''))
       \<and> can_open E (path_join d (sanitize_filename t @ ''_1.md''))
       \<longrightarrow> (\<exists>w'. convert_loop E d n i [c1, c2] w = Returned w'
                \<and> map fst (files w') = map fst (files w)
                     @ [path_join d (sanitize_filename t @ ''.md''),
                        path_join d (sanitize_filename t @ ''_1.md'')]))"
proof -
  let ?A = "path_join d (sanitize_filename t @ ''.md'')"
  have rule: "(\<not> path_exists w ?A \<and> target_path w d t = ?A)
       \<or> (path_exists w ?A
           \<and> (\<exists>j \<ge> 1.
                 target_path w d t
                   = path_join d (sanitize_filename t @ ''_'' @ show_nat j @ ''.md'')
                 \<and> (\<forall>l. 1 \<le> l \<and> l < j \<longrightarrow>
                       path_exists w
                         (path_join d (sanitize_filename t @ ''_'' @ show_nat l @ ''.md'')))))"
    using unique_path_first_unused [of w ?A ?A 1]
    by (simp only: target_path_def Let_def numbered_sanitized) blast
  show ?thesis
    using convert_loop_names [of w E d n i cs] target_path_fresh [of w d t]
      target_path_nonempty [of w d t] rule
      same_title_twice [of E n i c1 t c2 w d]
    by blast
qed

theorem output_names_unique_witness:
  "distinct (map fst (files empty_world))
   \<and> resolve_title (sample_env True NotFound) 2 0 (JDict [(''name'', JStr ''T'')]) = Inr (JStr ''T'')
   \<and> resolve_title (sample_env True NotFound) 2 (Suc 0) (JDict [(''name'', JStr ''T'')])
       = Inr (JStr ''T'')
   \<and> \<not> path_exists empty_world (path_join ''out'' (sanitize_filename ''T'' @ ''.md''))
   \<and> \<not> path_exists empty_world (path_join ''out'' (sanitize_filename ''T'' @ ''_1.md''))
   \<and> can_open (sample_env True NotFound) (path_join ''out'' (sanitize_filename ''T'' @ ''.md''))
   \<and> can_open (sample_env True NotFound) (path_join ''out'' (sanitize_filename ''T'' @ ''_1.md''))
   \<and> (\<exists>w'. convert_loop (sample_env True NotFound) ''out'' 2 0
               [JDict [(''name'', JStr ''T'')], JDict [(''name'', JStr ''T'')]] empty_world
             = Returned w'
           \<and> map fst (files w') = [''out/T.md'', ''out/T_1.md''])"
proof -
  have a: "path_join ''out'' (sanitize_filename ''T'' @ ''.md'') = ''out/T.md''"
    by code_simp
  have b: "path_join ''out'' (sanitize_filename ''T'' @ ''_1.md'') = ''out/T_1.md''"
    by code_simp
  have dist: "distinct (map fst (files empty_world))"
    by (simp add: empty_world_def)
  have t1: "resolve_title (sample_env True NotFound) 2 0 (JDict [(''name'', JStr ''T'')])
              = Inr (JStr ''T'')"
    by (simp add: resolve_title_def extract_conversation_title_def title_fields_def)
  have t2: "resolve_title (sample_env True NotFound) 2 (Suc 0) (JDict [(''name'', JStr ''T'')])
              = Inr (JStr ''T'')"
    by (simp add: resolve_title_def extract_conversation_title_def title_fields_def)
  have f0: "\<not> path_exists empty_world (path_join ''out'' (sanitize_filename ''T'' @ ''.md''))"
    unfolding a by (simp add: path_exists_def empty_world_def)
  have f1: "\<not> path_exists empty_world (path_join ''out'' (sanitize_filename ''T'' @ ''_1.md''))"
    unfolding b by (simp add: path_exists_def empty_world_def)
  have o0: "can_open (sample_env True NotFound)
              (path_join ''out'' (sanitize_filename ''T'' @ ''.md''))"
    by (simp add: sample_env_def)
  have o1: "can_open (sample_env True NotFound)
              (path_join ''out'' (sanitize_filename ''T'' @ ''_1.md''))"
    by (simp add: sample_env_def)
  have "\<exists>w'. convert_loop (sample_env True NotFound) ''out'' 2 0
               [JDict [(''name'', JStr ''T'')], JDict [(''name'', JStr ''T'')]] empty_world
             = Returned w'
           \<and> map fst (files w') = map fst (files empty_world)
                @ [path_join ''out'' (sanitize_filename ''T'' @ ''.md''),
                   path_join ''out'' (sanitize_filename ''T'' @ ''_1.md'')]"
    using output_names_unique
            [where E = "sample_env True NotFound" and n = 2 and i = 0 and t = "''T''"
               and ?c1.0 = "JDict [(''name'', JStr ''T'')]"
               and ?c2.0 = "JDict [(''name'', JStr ''T'')]"
               and w = empty_world and d = "''out''" and cs = "[]"]
          t1 t2 f0 f1 o0 o1
    by blast
  then have "\<exists>w'. convert_loop (sample_env True NotFound) ''out'' 2 0
               [JDict [(''name'', JStr ''T'')], JDict [(''name'', JStr ''T'')]] empty_world
             = Returned w'
           \<and> map fst (files w') = [''out/T.md'', ''out/T_1.md'']"
    unfolding a b by (simp add: empty_world_def)
  with dist t1 t2 f0 f1 o0 o1 show ?thesis by blast
qed

end
